theory Spec2Isabelle
  imports
    Main
    "HOL-Library.Sublist"
    "HOL-Library.Char_ord"
    "HOL-Library.List_Lexorder"
    "HOL-Library.AList"
begin

section \<open>Strings and paths\<close>

text \<open>
  The program is \<^verbatim>\<open>cbmc_viewer/sourcet.py\<close>.  Python strings are modelled as
  \<^typ>\<open>string\<close>, a character standing for a code point below 256; the order on strings
  is the lexicographic order on code points, which is the order Python's \<^verbatim>\<open>sorted\<close>
  uses.  Paths are POSIX paths.
\<close>

definition sep :: char where
  "sep = CHR ''/''"

definition py_isspace :: "char \<Rightarrow> bool" where
  \<comment> \<open>\<^verbatim>\<open>str.isspace\<close> on one character: what \<^verbatim>\<open>str.strip()\<close> removes and what
      the regular expression \<^verbatim>\<open>\s\<close> matches.\<close>
  "py_isspace c \<longleftrightarrow> c \<in> set [CHR 0x09, CHR 0x0A, CHR 0x0B, CHR 0x0C, CHR 0x0D,
                               CHR 0x1C, CHR 0x1D, CHR 0x1E, CHR 0x1F, CHR 0x20,
                               CHR 0x85, CHR 0xA0]"

definition py_strip :: "string \<Rightarrow> string" where
  \<comment> \<open>\<^verbatim>\<open>str.strip()\<close>\<close>
  "py_strip s = rev (dropWhile py_isspace (rev (dropWhile py_isspace s)))"

definition startswith :: "string \<Rightarrow> string \<Rightarrow> bool" where
  \<comment> \<open>\<^verbatim>\<open>s.startswith(p)\<close>\<close>
  "startswith s p \<longleftrightarrow> prefix p s"

definition endswith :: "string \<Rightarrow> string \<Rightarrow> bool" where
  \<comment> \<open>\<^verbatim>\<open>s.endswith(p)\<close>\<close>
  "endswith s p \<longleftrightarrow> suffix p s"

fun str_split :: "char \<Rightarrow> string \<Rightarrow> string list" where
  \<comment> \<open>\<^verbatim>\<open>s.split(c)\<close> for a one-character separator\<close>
  "str_split c [] = [[]]"
| "str_split c (x # xs) =
     (if x = c then [] # str_split c xs
      else (case str_split c xs of
              w # ws \<Rightarrow> (x # w) # ws
            | [] \<Rightarrow> [[x]]))"

fun str_join :: "char \<Rightarrow> string list \<Rightarrow> string" where
  \<comment> \<open>\<^verbatim>\<open>c.join(comps)\<close>\<close>
  "str_join c [] = []"
| "str_join c [w] = w"
| "str_join c (w # v # ws) = w @ c # str_join c (v # ws)"

subsection \<open>\<^verbatim>\<open>os.path\<close> on POSIX\<close>

definition os_path_isabs :: "string \<Rightarrow> bool" where
  "os_path_isabs p \<longleftrightarrow> startswith p [sep]"

definition os_path_join :: "string \<Rightarrow> string \<Rightarrow> string" where
  \<comment> \<open>\<^verbatim>\<open>os.path.join(a, b)\<close>\<close>
  "os_path_join a b =
     (if startswith b [sep] then b
      else if a = [] \<or> endswith a [sep] then a @ b
      else a @ sep # b)"

definition os_path_basename :: "string \<Rightarrow> string" where
  \<comment> \<open>\<^verbatim>\<open>os.path.basename(p)\<close>: what follows the last separator\<close>
  "os_path_basename p = rev (takeWhile (\<lambda>c. c \<noteq> sep) (rev p))"

definition os_path_splitext :: "string \<Rightarrow> string \<times> string" where
  \<comment> \<open>\<^verbatim>\<open>os.path.splitext(p)\<close>: the extension starts at the last dot of the base name,
      unless only dots precede it there.\<close>
  "os_path_splitext p =
     (let base = os_path_basename p;
          ext = rev (takeWhile (\<lambda>c. c \<noteq> CHR ''.'') (rev base));
          stem = take (length base - length ext - 1) base
      in if CHR ''.'' \<in> set base \<and> (\<exists>c \<in> set stem. c \<noteq> CHR ''.'')
         then (take (length p - length ext - 1) p, CHR ''.'' # ext)
         else (p, []))"

definition initial_slashes :: "string \<Rightarrow> nat" where
  \<comment> \<open>POSIX allows one or two initial slashes, and treats three or more as one.\<close>
  "initial_slashes path =
     (if startswith path [sep]
      then (if startswith path [sep, sep] \<and> \<not> startswith path [sep, sep, sep] then 2 else 1)
      else 0)"

definition normpath_step :: "nat \<Rightarrow> string list \<Rightarrow> string \<Rightarrow> string list" where
  \<comment> \<open>one round of the loop of \<^verbatim>\<open>posixpath.normpath\<close> over the components\<close>
  "normpath_step slashes new_comps cmp =
     (if cmp = [] \<or> cmp = ''.'' then new_comps
      else if cmp \<noteq> ''..'' \<or> (slashes = 0 \<and> new_comps = [])
              \<or> (new_comps \<noteq> [] \<and> last new_comps = ''..'')
      then new_comps @ [cmp]
      else if new_comps \<noteq> [] then butlast new_comps
      else new_comps)"

definition os_path_normpath :: "string \<Rightarrow> string" where
  \<comment> \<open>\<^verbatim>\<open>os.path.normpath(path)\<close>\<close>
  "os_path_normpath path =
     (if path = [] then ''.''
      else
        let slashes = initial_slashes path;
            comps = str_split sep path;
            new_comps = foldl (normpath_step slashes) [] comps;
            path' = replicate slashes sep @ str_join sep new_comps
        in if path' = [] then ''.'' else path')"

definition os_path_abspath :: "string \<Rightarrow> string \<Rightarrow> string" where
  \<comment> \<open>\<^verbatim>\<open>os.path.abspath(path)\<close>, the current directory \<^verbatim>\<open>os.getcwd()\<close> given as
      \<open>cwd\<close>\<close>
  "os_path_abspath cwd path =
     os_path_normpath (if \<not> os_path_isabs path then os_path_join cwd path else path)"

text \<open>
  Modelled from the spec: \<^verbatim>\<open>srcloct.abspath\<close>, whose module is not among the sources.
  The spec's PathNormalizer "canonicalizes filesystem paths to absolute form"; it is taken
  to be \<^verbatim>\<open>os.path.abspath\<close>.
\<close>

definition srcloct_abspath :: "string \<Rightarrow> string \<Rightarrow> string" where
  "srcloct_abspath cwd path = os_path_abspath cwd path"

text \<open>
  Modelled from the spec: \<^verbatim>\<open>srcloct.normpath\<close>, whose module is not among the sources.
  The spec's \<^verbatim>\<open>files\<close> entries "are always normalized relative paths (no \<^verbatim>\<open>..\<close>, no
  redundant separators)"; it is taken to be \<^verbatim>\<open>os.path.normpath\<close>.
\<close>

definition srcloct_normpath :: "string \<Rightarrow> string" where
  "srcloct_normpath path = os_path_normpath path"

section \<open>The data model\<close>

text \<open>
  Exceptions are values.  \<open>UserWarning msg args\<close> carries the message text (with \<^verbatim>\<open>{}\<close>
  where the source formats a value in) and the values formatted.  \<open>OSError n\<close> is an
  \<^verbatim>\<open>OSError\<close> that is not a \<^verbatim>\<open>FileNotFoundError\<close>, with \<^verbatim>\<open>errno\<close> \<open>n\<close>.
  \<open>Invalid\<close> is a failed schema validation, \<open>OtherError\<close> any other exception of a
  collaborator.
\<close>

datatype error =
    UserWarning string "string list"
  | FileNotFoundError
  | OSError nat
  | CalledProcessError
  | AttributeError
  | KeyError
  | Invalid
  | OtherError string

datatype Sources = FIND | WALK | MAKE | GOTO

definition JSON_TAG :: string where
  "JSON_TAG = ''viewer-source''"

text \<open>
  A Python dict from strings to integers is an association list in insertion order, each
  key once: \<^const>\<open>AList.update\<close> overwrites a key in place and appends a new key, as an
  assignment \<^verbatim>\<open>d[k] = v\<close> does.
\<close>

type_synonym loc_dict = "(string \<times> int) list"

definition dict_get :: "loc_dict \<Rightarrow> string \<Rightarrow> int \<Rightarrow> int" where
  \<comment> \<open>\<^verbatim>\<open>d.get(key, default)\<close>\<close>
  "dict_get d key dflt = (case map_of d key of None \<Rightarrow> dflt | Some v \<Rightarrow> v)"

text \<open>
  The attributes of a \<^verbatim>\<open>Source\<close> object (its \<^verbatim>\<open>__dict__\<close>); \<open>lines_of_code\<close> is
  \<open>None\<close> when the attribute is not set.
\<close>

record source =
  root :: string
  all_files :: "string list"
  files :: "string list"
  lines_of_code :: "loc_dict option"

text \<open>
  What \<^verbatim>\<open>load\<close> of \<^verbatim>\<open>SourceFromJson\<close> meets in a file: \<open>Unparsed\<close> when
  \<^verbatim>\<open>parse.parse_json_file\<close> returns \<^verbatim>\<open>None\<close> (subscripting it raises \<^verbatim>\<open>TypeError\<close>),
  \<open>Untagged\<close> a JSON object without the key \<^verbatim>\<open>viewer-source\<close>, \<open>Nonconforming\<close> a
  tagged value that \<^verbatim>\<open>VALID_SOURCE\<close> rejects, \<open>Tagged s\<close> a tagged value that conforms,
  with the fields \<open>s\<close>.
\<close>

datatype source_json = Unparsed | Untagged | Nonconforming | Tagged source

type_synonym regex = "string \<Rightarrow> bool"

text \<open>
  The collaborators outside the module, as the functions the code calls:
  \<^item> \<open>getcwd\<close>: \<^verbatim>\<open>os.getcwd()\<close>;
  \<^item> \<open>runt_run cmd cwd ignored\<close>: \<^verbatim>\<open>runt.run\<close>, the output of the command or the
    exception raised;
  \<^item> \<open>json_summary result\<close>: the items of \<^verbatim>\<open>json.loads(result)['summary']\<close>, each value
    through \<^verbatim>\<open>int\<close>; \<open>Inl\<close> when one of these raises;
  \<^item> \<open>parse_json_file name\<close>: \<^verbatim>\<open>parse.parse_json_file\<close>;
  \<^item> \<open>symbol_table_source_files goto wkdir\<close>: \<^verbatim>\<open>symbol_table.source_files\<close>;
  \<^item> \<open>os_walk root\<close>: the triples of \<^verbatim>\<open>os.walk(root, followlinks=True)\<close>;
  \<^item> \<open>open_read name\<close>: \<^verbatim>\<open>open(name).read()\<close>.
  A regular expression is given by the strings on which \<^verbatim>\<open>re.match\<close> with \<^verbatim>\<open>re.I\<close>
  succeeds.
\<close>

record env =
  getcwd :: string
  runt_run :: "string list \<Rightarrow> string \<Rightarrow> nat list \<Rightarrow> error + string"
  json_summary :: "string \<Rightarrow> error + loc_dict"
  parse_json_file :: "string \<Rightarrow> source_json"
  symbol_table_source_files :: "string \<Rightarrow> string \<Rightarrow> error + string list"
  os_walk :: "string \<Rightarrow> (string \<times> string list \<times> string list) list"
  open_read :: "string \<Rightarrow> error + string"

section \<open>\<^verbatim>\<open>Source\<close>\<close>

definition validate :: "source \<Rightarrow> error + source" where
  \<comment> \<open>\<^verbatim>\<open>VALID_SOURCE\<close> constrains the presence and the types of the fields, which the
      record type fixes: validation of a \<^typ>\<open>source\<close> never raises.\<close>
  "validate s = Inr s"

definition sloc_add :: "loc_dict \<Rightarrow> string \<times> int \<Rightarrow> loc_dict" where
  \<comment> \<open>\<^verbatim>\<open>loc[key] = int(val) + loc.get(key, 0)\<close>\<close>
  "sloc_add loc kv = (case kv of (key, val) \<Rightarrow> AList.update key (val + dict_get loc key 0) loc)"

definition sloc_command :: "string list \<Rightarrow> string list" where
  \<comment> \<open>\<^verbatim>\<open>command = ['sloc', '-f', 'json'] + files\<close>\<close>
  "sloc_command fs = [''sloc'', ''-f'', ''json''] @ fs"

text \<open>
  The loop of \<^verbatim>\<open>Source.sloc\<close>.  Beside the result (\<open>Inr None\<close> for \<^verbatim>\<open>return None\<close>) it
  returns the calls of \<^verbatim>\<open>runt.run\<close> it made, each as the command and the working
  directory.
\<close>

function sloc_loop ::
  "env \<Rightarrow> string \<Rightarrow> string list \<Rightarrow> loc_dict \<Rightarrow> (string list \<times> string) list
    \<Rightarrow> (error + loc_dict option) \<times> (string list \<times> string) list" where
  "sloc_loop e root_dir sources loc calls =
     (if sources = [] then (Inr (Some loc), calls)
      else
        let fs = take 100 sources;
            command = sloc_command fs;
            calls' = calls @ [(command, root_dir)]
        in case runt_run e command root_dir [] of
             Inl FileNotFoundError \<Rightarrow> (Inr None, calls')
           | Inl (OSError errno) \<Rightarrow>
               if errno \<noteq> 7 then (Inl (OSError errno), calls') else (Inr None, calls')
           | Inl CalledProcessError \<Rightarrow> (Inr None, calls')
           | Inl err \<Rightarrow> (Inl err, calls')
           | Inr result \<Rightarrow>
               (case json_summary e result of
                  Inl err \<Rightarrow> (Inl err, calls')
                | Inr data \<Rightarrow> sloc_loop e root_dir (drop 100 sources) (foldl sloc_add loc data) calls'))"
  by pat_completeness auto
termination
  by (relation "measure (\<lambda>(e, root_dir, sources, loc, calls). length sources)") auto

definition Source_sloc ::
  "env \<Rightarrow> string list \<Rightarrow> string
    \<Rightarrow> (error + loc_dict option) \<times> (string list \<times> string) list" where
  "Source_sloc e fs root_dir = sloc_loop e root_dir fs [] []"

definition Source_init :: "env \<Rightarrow> string option \<Rightarrow> string list option \<Rightarrow> bool \<Rightarrow> error + source" where
  "Source_init e root_arg files_arg sloc =
     (let self_root = (case root_arg of
                         None \<Rightarrow> []
                       | Some r \<Rightarrow> if r \<noteq> [] then srcloct_abspath (getcwd e) r else []);
          fs = (case files_arg of None \<Rightarrow> [] | Some l \<Rightarrow> l);
          self_all_files = sorted_list_of_set (set (map (srcloct_abspath (getcwd e)) fs));
          self_files = map (\<lambda>path. srcloct_normpath (drop (length self_root + 1) path))
                         (filter (\<lambda>path. startswith path self_root) self_all_files);
          self = \<lparr>root = self_root, all_files = self_all_files, files = self_files,
                  lines_of_code = None\<rparr>
      in if sloc
         then (case fst (Source_sloc e self_files self_root) of
                 Inl err \<Rightarrow> Inl err
               | Inr None \<Rightarrow> validate self
               | Inr (Some loc) \<Rightarrow>
                   if loc \<noteq> [] then validate (self\<lparr>lines_of_code := Some loc\<rparr>)
                   else validate self)
         else validate self)"

section \<open>\<^verbatim>\<open>SourceFromJson\<close>\<close>

definition load :: "env \<Rightarrow> string \<Rightarrow> error + source" where
  "load e source_json =
     (case parse_json_file e source_json of
        Unparsed \<Rightarrow> Inl (UserWarning ''Failed to load sources from {}'' [source_json])
      | Untagged \<Rightarrow> Inl KeyError
      | Nonconforming \<Rightarrow> Inl Invalid
      | Tagged s \<Rightarrow> Inr s)"

fun load_all :: "env \<Rightarrow> string list \<Rightarrow> error + source list" where
  \<comment> \<open>\<^verbatim>\<open>[load(source_json) for source_json in source_jsons]\<close>: the first exception ends it\<close>
  "load_all e [] = Inr []"
| "load_all e (source_json # rest) =
     (case load e source_json of
        Inl err \<Rightarrow> Inl err
      | Inr s \<Rightarrow> (case load_all e rest of Inl err \<Rightarrow> Inl err | Inr ss \<Rightarrow> Inr (s # ss)))"

text \<open>
  \<^verbatim>\<open>merge\<close> builds two Python sets and turns each into a list; Python fixes no order for
  that list, \<^const>\<open>remdups\<close> is one such order.
\<close>

definition merge :: "source list \<Rightarrow> error + (string \<times> string list)" where
  "merge sources =
     (let roots = remdups (map root sources);
          fs = remdups (concat (map all_files sources))
      in if length roots \<noteq> 1
         then Inl (UserWarning ''Source lists have different roots: {}'' roots)
         else Inr (hd roots, fs))"

definition SourceFromJson_init :: "env \<Rightarrow> string list option \<Rightarrow> bool \<Rightarrow> error + source" where
  "SourceFromJson_init e source_jsons sloc =
     (case source_jsons of
        None \<Rightarrow> Inl (UserWarning ''No sources'' [])
      | Some names \<Rightarrow>
          if names = [] then Inl (UserWarning ''No sources'' [])
          else (case load_all e names of
                  Inl err \<Rightarrow> Inl err
                | Inr sources \<Rightarrow>
                    (case merge sources of
                       Inl err \<Rightarrow> Inl err
                     | Inr (r, fs) \<Rightarrow> Source_init e (Some r) (Some fs) sloc)))"

definition Source_str :: "source \<Rightarrow> source_json" where
  \<comment> \<open>\<^verbatim>\<open>__str__\<close>: the document \<^verbatim>\<open>{JSON_TAG: self.__repr__()}\<close>, as
      \<^verbatim>\<open>parse.parse_json_file\<close> reads it back from the file it was dumped to\<close>
  "Source_str self = Tagged self"

section \<open>\<^verbatim>\<open>SourceFromGoto\<close>\<close>

definition SourceFromGoto_init ::
  "env \<Rightarrow> string option \<Rightarrow> string \<Rightarrow> string \<Rightarrow> bool \<Rightarrow> error + source" where
  "SourceFromGoto_init e goto wkdir srcdir sloc =
     (if goto = None \<or> goto = Some [] then Inl (UserWarning ''No goto program'' [])
      else (case symbol_table_source_files e (the goto) wkdir of
              Inl err \<Rightarrow> Inl err
            | Inr fs \<Rightarrow> Source_init e (Some srcdir) (Some (sort fs)) sloc))"

section \<open>\<^verbatim>\<open>SourceFromFind\<close> and \<^verbatim>\<open>SourceFromWalk\<close>\<close>

definition py_linebreak :: "char \<Rightarrow> bool" where
  \<comment> \<open>the line boundaries of \<^verbatim>\<open>str.splitlines\<close>\<close>
  "py_linebreak c \<longleftrightarrow> c \<in> set [CHR 0x0A, CHR 0x0B, CHR 0x0C, CHR 0x0D,
                                 CHR 0x1C, CHR 0x1D, CHR 0x1E, CHR 0x85]"

function py_splitlines :: "string \<Rightarrow> string list" where
  \<comment> \<open>\<^verbatim>\<open>str.splitlines()\<close>; a carriage return followed by a line feed is one boundary\<close>
  "py_splitlines s =
     (if s = [] then []
      else (case dropWhile (\<lambda>c. \<not> py_linebreak c) s of
              [] \<Rightarrow> [s]
            | c # rest \<Rightarrow>
                takeWhile (\<lambda>c. \<not> py_linebreak c) s
                # py_splitlines (if c = CHR 0x0D \<and> startswith rest [CHR 0x0A]
                                 then tl rest else rest)))"
  by pat_completeness auto
termination
proof (relation "measure length")
  show "wf (measure length)" by simp
next
  fix s :: string and c rest
  assume "dropWhile (\<lambda>c. \<not> py_linebreak c) s = c # rest"
  then have "Suc (length rest) \<le> length s"
    using length_dropWhile_le [of "\<lambda>c. \<not> py_linebreak c" s] by simp
  then have "length rest < length s" and "length (tl rest) < length s"
    by auto
  then show "((if c = CHR 0x0D \<and> startswith rest [CHR 0x0A] then tl rest else rest), s)
               \<in> measure length"
    by (simp del: length_tl)
qed

definition py_lower :: "string \<Rightarrow> string" where
  \<comment> \<open>\<^verbatim>\<open>str.lower()\<close>\<close>
  "py_lower s =
     map (\<lambda>c. let n = (of_char c :: nat)
               in if (65 \<le> n \<and> n \<le> 90) \<or> (192 \<le> n \<and> n \<le> 222 \<and> n \<noteq> 215)
                  then char_of (n + 32) else c) s"

definition select_source_files ::
  "string list \<Rightarrow> string \<Rightarrow> regex option \<Rightarrow> regex option \<Rightarrow> string list" where
  "select_source_files fs root_dir exclude extensions =
     (let fs1 = map os_path_normpath fs;
          fs2 = (case exclude of
                   None \<Rightarrow> fs1
                 | Some re \<Rightarrow> filter (\<lambda>path. \<not> re path) fs1);
          fs3 = (case extensions of
                   None \<Rightarrow> fs2
                 | Some re \<Rightarrow> filter (\<lambda>path. re (snd (os_path_splitext path))) fs2)
      in map (os_path_join root_dir) fs3)"

definition SourceFromFind_find_sources ::
  "env \<Rightarrow> string \<Rightarrow> regex option \<Rightarrow> regex option \<Rightarrow> error + string list" where
  "SourceFromFind_find_sources e root_dir exclude extensions =
     (case runt_run e [''find'', ''-L'', ''.''] root_dir [] of
        Inl err \<Rightarrow> Inl err
      | Inr out \<Rightarrow>
          Inr (select_source_files (py_splitlines (py_strip out)) root_dir exclude extensions))"

definition SourceFromFind_init ::
  "env \<Rightarrow> string \<Rightarrow> regex option \<Rightarrow> regex option \<Rightarrow> bool \<Rightarrow> error + source" where
  "SourceFromFind_init e root_dir exclude extensions sloc =
     (case SourceFromFind_find_sources e root_dir exclude extensions of
        Inl err \<Rightarrow> Inl err
      | Inr fs \<Rightarrow> Source_init e (Some root_dir) (Some fs) sloc)"

definition SourceFromWalk_find_sources ::
  "env \<Rightarrow> string \<Rightarrow> regex option \<Rightarrow> regex option \<Rightarrow> string list" where
  "SourceFromWalk_find_sources e root_dir exclude extensions =
     (let fs = concat (map (\<lambda>(path, dirnames, filenames).
                              map (os_path_join path)
                                (filter (\<lambda>name. endswith (py_lower name) ''.h''
                                               \<or> endswith (py_lower name) ''.c''
                                               \<or> endswith (py_lower name) ''.inl'')
                                   filenames))
                        (os_walk e root_dir))
      in select_source_files fs root_dir exclude extensions)"

definition SourceFromWalk_init ::
  "env \<Rightarrow> string \<Rightarrow> regex option \<Rightarrow> regex option \<Rightarrow> bool \<Rightarrow> error + source" where
  "SourceFromWalk_init e root_dir exclude extensions sloc =
     Source_init e (Some root_dir)
       (Some (SourceFromWalk_find_sources e root_dir exclude extensions)) sloc"

section \<open>\<^verbatim>\<open>SourceFromMake\<close>\<close>

fun remove_continuations :: "string \<Rightarrow> string" where
  \<comment> \<open>\<^verbatim>\<open>result.replace('\\\n', '')\<close>: a backslash followed by a line feed is dropped\<close>
  "remove_continuations (c # d # cs) =
     (if c = CHR 0x5C \<and> d = CHR 0x0A then remove_continuations cs
      else c # remove_continuations (d # cs))"
| "remove_continuations cs = cs"

definition build_with_preprocessor :: "env \<Rightarrow> string \<Rightarrow> error + string list" where
  "build_with_preprocessor e build =
     (case runt_run e [''make'', ''GOTO_CC=goto-cc -E'', ''goto''] build [2] of
        Inl err \<Rightarrow> Inl err
      | Inr result \<Rightarrow>
          Inr (map py_strip
                 (filter (\<lambda>line. startswith (py_strip line) ''goto-cc'')
                    (py_splitlines (remove_continuations result)))))"

fun search_output_flag :: "string \<Rightarrow> string option" where
  \<comment> \<open>group 1 of \<^verbatim>\<open>re.search(r' -o (\S+) ', cmd)\<close>: the leftmost \<^verbatim>\<open>' -o '\<close> that a
      non-empty run of non-space characters and a space follow\<close>
  "search_output_flag [] = None"
| "search_output_flag (c # cs) =
     (let name = takeWhile (\<lambda>x. \<not> py_isspace x) (drop 3 cs)
      in if startswith (c # cs) '' -o '' \<and> name \<noteq> []
            \<and> startswith (dropWhile (\<lambda>x. \<not> py_isspace x) (drop 3 cs)) '' ''
         then Some name
         else search_output_flag cs)"

fun extract_filenames :: "env \<Rightarrow> string list \<Rightarrow> string \<Rightarrow> string list" where
  "extract_filenames e [] build = []"
| "extract_filenames e (cmd # commands) build =
     (case search_output_flag cmd of
        None \<Rightarrow> extract_filenames e commands build
      | Some name \<Rightarrow>
          os_path_abspath (getcwd e) (os_path_join build name)
          # extract_filenames e commands build)"

fun read_output :: "env \<Rightarrow> string list \<Rightarrow> error + string list" where
  "read_output e [] = Inr []"
| "read_output e (name # rest) =
     (case open_read e name of
        Inl FileNotFoundError \<Rightarrow> read_output e rest
      | Inl err \<Rightarrow> Inl err
      | Inr content \<Rightarrow>
          (case read_output e rest of
             Inl err \<Rightarrow> Inl err
           | Inr out \<Rightarrow> Inr (py_splitlines content @ out)))"

fun search_quoted :: "string \<Rightarrow> string option" where
  \<comment> \<open>group 1 of \<^verbatim>\<open>re.search(r'"(.*)"', line)\<close>: from the leftmost double quote that has
      another one after it before the next line feed, up to the last such one\<close>
  "search_quoted [] = None"
| "search_quoted (c # cs) =
     (let seg = takeWhile (\<lambda>x. x \<noteq> CHR 0x0A) cs
      in if c = CHR 0x22 \<and> CHR 0x22 \<in> set seg
         then Some (rev (tl (dropWhile (\<lambda>x. x \<noteq> CHR 0x22) (rev seg))))
         else search_quoted cs)"

definition extract_source_filenames :: "string list \<Rightarrow> string \<Rightarrow> error + string list" where
  \<comment> \<open>\<^verbatim>\<open>re.search(...)\<close> is \<^verbatim>\<open>None\<close> on a line marker without a quoted name, and
      \<^verbatim>\<open>.group(1)\<close> then raises \<^verbatim>\<open>AttributeError\<close>\<close>
  "extract_source_filenames output build =
     (let linemarkers = filter (\<lambda>line. startswith (py_strip line) ''# '') output
      in case those (map search_quoted linemarkers) of
           None \<Rightarrow> Inl AttributeError
         | Some filenames \<Rightarrow>
             (let filenames1 = filter (\<lambda>name. os_path_basename name \<notin>
                                         set [''<built-in>'', ''<command-line>'', ''<command line>''])
                                 filenames;
                  filenames2 = map (os_path_join build) filenames1;
                  filenames3 = map os_path_normpath filenames2
              in Inr (sorted_list_of_set (set filenames3))))"

definition SourceFromMake_find_sources :: "env \<Rightarrow> string \<Rightarrow> error + string list" where
  "SourceFromMake_find_sources e build =
     (case runt_run e [''make'', ''clean''] build [] of
        Inl err \<Rightarrow> Inl err
      | Inr _ \<Rightarrow>
     (case build_with_preprocessor e build of
        Inl err \<Rightarrow> Inl err
      | Inr preprocessor_commands \<Rightarrow>
     (case read_output e (extract_filenames e preprocessor_commands build) of
        Inl err \<Rightarrow> Inl err
      | Inr preprocessed_output \<Rightarrow>
     (case extract_source_filenames preprocessed_output build of
        Inl err \<Rightarrow> Inl err
      | Inr source_files \<Rightarrow>
     (case runt_run e [''make'', ''clean''] build [] of
        Inl err \<Rightarrow> Inl err
      | Inr _ \<Rightarrow> Inr source_files)))))"

definition SourceFromMake_init :: "env \<Rightarrow> string \<Rightarrow> string \<Rightarrow> bool \<Rightarrow> error + source" where
  "SourceFromMake_init e root_dir build sloc =
     (case SourceFromMake_find_sources e build of
        Inl err \<Rightarrow> Inl err
      | Inr fs \<Rightarrow> Source_init e (Some root_dir) (Some fs) sloc)"

section \<open>\<^verbatim>\<open>make_source\<close>\<close>

definition fail :: "string \<Rightarrow> error + source" where
  "fail msg = Inl (UserWarning msg [])"

definition make_source ::
  "env \<Rightarrow> string list option \<Rightarrow> string option \<Rightarrow> Sources option \<Rightarrow> string option
    \<Rightarrow> string option \<Rightarrow> regex option \<Rightarrow> regex option \<Rightarrow> error + source" where
  "make_source e viewer_source goto source_method srcdir0 wkdir0 exclude extensions =
     (let wkdir = (case wkdir0 of
                     None \<Rightarrow> None
                   | Some d \<Rightarrow> if d \<noteq> [] then Some (srcloct_abspath (getcwd e) d) else None);
          srcdir = (case srcdir0 of
                      None \<Rightarrow> None
                    | Some d \<Rightarrow> if d \<noteq> [] then Some (srcloct_abspath (getcwd e) d) else None)
      in if viewer_source \<noteq> None \<and> viewer_source \<noteq> Some []
         then SourceFromJson_init e viewer_source False
         else if source_method = Some GOTO
         then (if goto = None \<or> wkdir = None \<or> srcdir = None
               then fail ''make-source: expected --goto and --srcdir and --wkdir''
               else SourceFromGoto_init e goto (the wkdir) (the srcdir) False)
         else if source_method = Some MAKE
         then (if srcdir = None \<or> wkdir = None
               then fail ''make-source: expected --srcdir and --wkdir''
               else SourceFromMake_init e (the srcdir) (the wkdir) True)
         else if source_method = Some FIND
         then (if srcdir = None
               then fail ''make-source: expected --srcdir''
               else SourceFromFind_init e (the srcdir) exclude extensions False)
         else if source_method = Some WALK
         then (if srcdir = None
               then fail ''make-source: expected --srcdir''
               else SourceFromWalk_init e (the srcdir) exclude extensions False)
         else Source_init e None None False)"

section \<open>Notions used to state the properties\<close>

text \<open>
  The successive chunks of at most \<open>n\<close> elements of a list, as the specification
  speaks of them.
\<close>

function chunks :: "nat \<Rightarrow> 'a list \<Rightarrow> 'a list list" where
  "chunks n xs = (if xs = [] \<or> n = 0 then [] else take n xs # chunks n (drop n xs))"
  by pat_completeness auto
termination
  by (relation "measure (\<lambda>(n, xs). length xs)") auto

definition tool_succeeds :: "env \<Rightarrow> string \<Rightarrow> string list \<Rightarrow> loc_dict \<Rightarrow> bool" where
  \<comment> \<open>the counting tool, run on a chunk in \<open>root_dir\<close>, exits normally and its output
      has the summary \<open>data\<close>\<close>
  "tool_succeeds e root_dir chunk data \<longleftrightarrow>
     (case runt_run e (sloc_command chunk) root_dir [] of
        Inl err \<Rightarrow> False
      | Inr result \<Rightarrow> json_summary e result = Inr data)"

definition tool_unavailable :: "env \<Rightarrow> string \<Rightarrow> string list \<Rightarrow> bool" where
  \<comment> \<open>the binary is not found, the argument list is too long (\<^verbatim>\<open>errno\<close> 7), or the
      tool exits with a nonzero status\<close>
  "tool_unavailable e root_dir chunk \<longleftrightarrow>
     runt_run e (sloc_command chunk) root_dir []
       \<in> set [Inl FileNotFoundError, Inl (OSError 7), Inl CalledProcessError]"

definition key_count :: "string \<Rightarrow> loc_dict \<Rightarrow> int" where
  \<comment> \<open>the count of a key in one summary, 0 when the key is absent\<close>
  "key_count key data = sum_list (map snd (filter (\<lambda>kv. fst kv = key) data))"

definition relative_to :: "string \<Rightarrow> string \<Rightarrow> string" where
  \<comment> \<open>the entry of \<open>files\<close> that \<^verbatim>\<open>Source.__init__\<close> computes for a member of
      \<open>all_files\<close>\<close>
  "relative_to root_dir path = srcloct_normpath (drop (length root_dir + 1) path)"

text \<open>
  The invariant of the loop of \<^verbatim>\<open>posixpath.normpath\<close>: no component is empty, a dot, or
  contains a separator, and \<^verbatim>\<open>..\<close> occurs only at the front of a relative path.
\<close>

definition dotdots_lead :: "string list \<Rightarrow> bool" where
  "dotdots_lead cs \<longleftrightarrow> ''..'' \<notin> set (dropWhile (\<lambda>w. w = ''..'') cs)"

definition normal_comps :: "nat \<Rightarrow> string list \<Rightarrow> bool" where
  "normal_comps k cs \<longleftrightarrow>
     (\<forall>w \<in> set cs. w \<noteq> [] \<and> w \<noteq> ''.'' \<and> sep \<notin> set w)
     \<and> (if k = 0 then dotdots_lead cs else ''..'' \<notin> set cs)"

text \<open>
  A line marker of the preprocessor, \<^verbatim>\<open># linenum "filename" flags\<close>.
\<close>

definition dquote :: char where
  "dquote = CHR 0x22"

definition linemarker :: "string \<Rightarrow> string \<Rightarrow> string \<Rightarrow> string" where
  "linemarker linenum filename flags =
     ''# '' @ linenum @ '' '' @ [dquote] @ filename @ [dquote] @ flags"

text \<open>
  Environments for the concrete instances below: one where the counting tool runs and
  reports the same summary for every chunk, one where it runs on a full chunk of 100
  files only, one where its binary is missing, one with a directory tree to walk, and one
  with a serialized source set to read.
\<close>

definition env_counting :: env where
  "env_counting =
     \<lparr>getcwd = ''/home/user'',
      runt_run = (\<lambda>cmd cwd ignored. Inr ''{}''),
      json_summary = (\<lambda>result. Inr [(''total'', 5), (''source'', 3)]),
      parse_json_file = (\<lambda>name. Unparsed),
      symbol_table_source_files = (\<lambda>goto wkdir. Inr []),
      os_walk = (\<lambda>root_dir. []),
      open_read = (\<lambda>name. Inl FileNotFoundError)\<rparr>"

definition env_second_fails :: env where
  "env_second_fails =
     env_counting\<lparr>runt_run := (\<lambda>cmd cwd ignored.
                      if length cmd = 103 then Inr ''{}'' else Inl CalledProcessError)\<rparr>"

definition env_no_tool :: env where
  "env_no_tool = env_counting\<lparr>runt_run := (\<lambda>cmd cwd ignored. Inl FileNotFoundError)\<rparr>"

definition env_walk :: env where
  "env_walk =
     env_counting\<lparr>os_walk := (\<lambda>root_dir.
        [(root_dir, [''doc''], [''b.c'', ''a.H'', ''notes.txt'']),
         (os_path_join root_dir ''doc'', [], [''a.H'', ''readme''])])\<rparr>"

definition env_reader :: env where
  "env_reader =
     env_counting\<lparr>getcwd := ''/tmp'',
       parse_json_file := (\<lambda>name.
         if name = ''viewer-source.json''
         then Tagged \<lparr>root = ''/src'', all_files = [''/src/a.c'', ''/usr/include/b.h''],
                      files = [''a.c''], lines_of_code = None\<rparr>
         else Unparsed)\<rparr>"

text \<open>
  The equations of the loops are unfolded by hand, where a proof needs them.
\<close>

declare sloc_loop.simps [simp del]
declare py_splitlines.simps [simp del]
declare chunks.simps [simp del]

section \<open>Properties of the path functions\<close>

lemma str_split_no_sep: "w \<in> set (str_split c s) \<Longrightarrow> c \<notin> set w"
  by (induction s arbitrary: w) (auto split: list.splits if_splits)

lemma str_split_plain: "c \<notin> set w \<Longrightarrow> str_split c w = [w]"
  by (induction w) auto

lemma str_split_append: "c \<notin> set w \<Longrightarrow> str_split c (w @ c # rest) = w # str_split c rest"
  by (induction w) auto

lemma str_split_join:
  "ws \<noteq> [] \<Longrightarrow> \<forall>w \<in> set ws. c \<notin> set w \<Longrightarrow> str_split c (str_join c ws) = ws"
  by (induction c ws rule: str_join.induct) (auto simp: str_split_plain str_split_append)

lemma dotdots_lead_all:
  assumes "dotdots_lead (acc @ ''..'' # ws)"
  shows "\<forall>w \<in> set acc. w = ''..''"
proof (rule ccontr)
  assume "\<not> (\<forall>w \<in> set acc. w = ''..'')"
  then have "dropWhile (\<lambda>w. w = ''..'') (acc @ ''..'' # ws)
              = dropWhile (\<lambda>w. w = ''..'') acc @ ''..'' # ws"
    by (auto simp: dropWhile_append1)
  with assms show False by (simp add: dotdots_lead_def)
qed

lemma dotdots_lead_last:
  assumes "dotdots_lead acc" "acc \<noteq> []" "last acc = ''..''"
  shows "\<forall>w \<in> set acc. w = ''..''"
proof -
  from assms(2) obtain ys where acc: "acc = ys @ [''..'']"
    using assms(3) by (metis append_butlast_last_id)
  from assms(1) have "dotdots_lead (ys @ ''..'' # [])" by (simp add: acc)
  then have "\<forall>w \<in> set ys. w = ''..''" by (rule dotdots_lead_all)
  then show ?thesis by (simp add: acc)
qed

lemma dotdots_lead_snoc: "dotdots_lead acc \<Longrightarrow> w \<noteq> ''..'' \<Longrightarrow> dotdots_lead (acc @ [w])"
  by (auto simp: dotdots_lead_def dropWhile_append)

lemma dotdots_lead_replicate: "\<forall>w \<in> set acc. w = ''..'' \<Longrightarrow> dotdots_lead (acc @ [''..''])"
  by (auto simp: dotdots_lead_def dropWhile_append)



lemma set_dropWhile_butlast:
  "set (dropWhile P (butlast xs)) \<subseteq> set (dropWhile P xs)"
proof (induction xs)
  case Nil then show ?case by simp
next
  case (Cons a xs)
  show ?case
  proof (cases "xs = []")
    case True then show ?thesis by simp
  next
    case False
    then show ?thesis using Cons.IH by (auto dest: in_set_butlastD)
  qed
qed

lemma dotdots_lead_butlast: "dotdots_lead acc \<Longrightarrow> dotdots_lead (butlast acc)"
  unfolding dotdots_lead_def using set_dropWhile_butlast[of "\<lambda>w. w = ''..''" acc] by blast

lemma normal_comps_snoc:
  "normal_comps k acc \<Longrightarrow> w \<noteq> [] \<Longrightarrow> w \<noteq> ''.'' \<Longrightarrow> w \<noteq> ''..'' \<Longrightarrow> sep \<notin> set w
    \<Longrightarrow> normal_comps k (acc @ [w])"
  unfolding normal_comps_def by (simp add: dotdots_lead_snoc)

lemma normal_comps_butlast: "normal_comps k acc \<Longrightarrow> normal_comps k (butlast acc)"
  unfolding normal_comps_def
  by (auto simp: dotdots_lead_butlast dest: in_set_butlastD)

lemma normal_comps_dotdot:
  assumes "normal_comps k acc" "(k = 0 \<and> acc = []) \<or> (acc \<noteq> [] \<and> last acc = ''..'')"
  shows "normal_comps k (acc @ [''..''])"
proof (cases "acc = []")
  case True
  with assms show ?thesis by (auto simp: normal_comps_def dotdots_lead_def sep_def)
next
  case False
  with assms have l: "last acc = ''..''" by simp
  then have mem: "''..'' \<in> set acc" using False last_in_set by metis
  with assms(1) have k: "k = 0" by (auto simp: normal_comps_def split: if_splits)
  with assms(1) have "dotdots_lead acc" by (simp add: normal_comps_def)
  then have "\<forall>w \<in> set acc. w = ''..''" using False l by (rule dotdots_lead_last)
  then have "dotdots_lead (acc @ [''..''])" by (rule dotdots_lead_replicate)
  with assms(1) k show ?thesis by (simp add: normal_comps_def sep_def)
qed

lemma normal_comps_step:
  assumes "normal_comps k acc" "sep \<notin> set w"
  shows "normal_comps k (normpath_step k acc w)"
proof -
  consider (skip) "w = [] \<or> w = ''.''"
    | (dd) "w = ''..''" "(k = 0 \<and> acc = []) \<or> (acc \<noteq> [] \<and> last acc = ''..'')"
    | (plain) "w \<noteq> []" "w \<noteq> ''.''" "w \<noteq> ''..''"
    | (pop) "w = ''..''" "\<not> ((k = 0 \<and> acc = []) \<or> (acc \<noteq> [] \<and> last acc = ''..''))" "acc \<noteq> []"
    | (stay) "w = ''..''" "\<not> ((k = 0 \<and> acc = []) \<or> (acc \<noteq> [] \<and> last acc = ''..''))" "acc = []"
    by blast
  then show ?thesis
  proof cases
    case skip then show ?thesis using assms by (auto simp: normpath_step_def)
  next
    case dd
    then have "normpath_step k acc w = acc @ [''..'']" by (auto simp: normpath_step_def)
    then show ?thesis using assms(1) dd(2) by (simp add: normal_comps_dotdot)
  next
    case plain
    then have "normpath_step k acc w = acc @ [w]" by (simp add: normpath_step_def)
    then show ?thesis using assms plain by (simp add: normal_comps_snoc)
  next
    case pop
    then have "normpath_step k acc w = butlast acc" by (auto simp: normpath_step_def)
    then show ?thesis using assms(1) by (simp add: normal_comps_butlast)
  next
    case stay
    then have "normpath_step k acc w = acc" by (auto simp: normpath_step_def)
    then show ?thesis using assms(1) by simp
  qed
qed

lemma normal_comps_foldl:
  "normal_comps k acc \<Longrightarrow> \<forall>w \<in> set ws. sep \<notin> set w
    \<Longrightarrow> normal_comps k (foldl (normpath_step k) acc ws)"
  by (induction ws arbitrary: acc) (simp_all add: normal_comps_step)

lemma normal_comps_Nil: "normal_comps k []"
  by (simp add: normal_comps_def dotdots_lead_def)

lemma normpath_step_normal:
  assumes "normal_comps k (acc @ w # ws)"
  shows "normpath_step k acc w = acc @ [w]"
proof (cases "w = ''..''")
  case False
  with assms show ?thesis by (simp add: normal_comps_def normpath_step_def)
next
  case True
  with assms have k: "k = 0" and lead: "dotdots_lead (acc @ ''..'' # ws)"
    by (auto simp: normal_comps_def split: if_splits)
  from lead have "\<forall>w \<in> set acc. w = ''..''" by (rule dotdots_lead_all)
  then have "acc = [] \<or> (acc \<noteq> [] \<and> last acc = ''..'')" by (cases acc rule: rev_cases) auto
  with True k show ?thesis by (auto simp: normpath_step_def)
qed

lemma foldl_normpath_step_normal:
  "normal_comps k (acc @ ws) \<Longrightarrow> foldl (normpath_step k) acc ws = acc @ ws"
proof (induction ws arbitrary: acc)
  case Nil then show ?case by simp
next
  case (Cons w ws)
  have "normpath_step k acc w = acc @ [w]" using Cons.prems by (rule normpath_step_normal)
  moreover have "normal_comps k ((acc @ [w]) @ ws)" using Cons.prems by simp
  ultimately show ?case using Cons.IH[of "acc @ [w]"] by simp
qed


lemma str_join_Cons: "str_join c (w # ws) = w @ (if ws = [] then [] else c # str_join c ws)"
  by (cases ws) simp_all

lemma str_join_no_leading_sep:
  assumes "normal_comps k ws"
  shows "\<not> startswith (str_join sep ws) [sep]"
proof (cases ws)
  case Nil then show ?thesis by (simp add: startswith_def)
next
  case (Cons w rest)
  with assms have "w \<noteq> []" "sep \<notin> set w" by (simp_all add: normal_comps_def)
  then obtain a w' where "w = a # w'" "a \<noteq> sep" by (cases w) auto
  then show ?thesis by (simp add: Cons str_join_Cons startswith_def)
qed

lemma initial_slashes_le2: "initial_slashes p \<le> 2"
  by (simp add: initial_slashes_def)

lemma initial_slashes_replicate:
  assumes "k \<le> 2" "\<not> startswith s [sep]"
  shows "initial_slashes (replicate k sep @ s) = k"
proof -
  from assms(1) consider "k = 0" | "k = 1" | "k = 2" by linarith
  then show ?thesis
  proof cases
    case 1 with assms(2) show ?thesis by (simp add: initial_slashes_def)
  next
    case 2 with assms(2) show ?thesis by (simp add: initial_slashes_def startswith_def)
  next
    case 3
    then have "replicate k sep = [sep, sep]" by (simp add: numeral_2_eq_2)
    with assms(2) 3 show ?thesis by (simp add: initial_slashes_def startswith_def)
  qed
qed

lemma str_split_replicate:
  "str_split sep (replicate k sep @ s) = replicate k [] @ str_split sep s"
  by (induction k) simp_all

lemma foldl_normpath_step_replicate:
  "foldl (normpath_step k) acc (replicate n []) = acc"
  by (induction n) (simp_all add: normpath_step_def)

lemma normpath_dot: "os_path_normpath ''.'' = ''.''"
  by code_simp

lemma normpath_normal:
  assumes "k \<le> 2" "normal_comps k new" "replicate k sep @ str_join sep new \<noteq> []"
  shows "os_path_normpath (replicate k sep @ str_join sep new) = replicate k sep @ str_join sep new"
proof -
  let ?q = "replicate k sep @ str_join sep new"
  have k: "initial_slashes ?q = k"
    using assms(1) str_join_no_leading_sep[OF assms(2)] by (rule initial_slashes_replicate)
  have "foldl (normpath_step k) [] (str_split sep ?q) = new"
  proof (cases "new = []")
    case True
    have "str_split sep (replicate k sep @ []) = replicate k [] @ [[]]"
      by (simp only: str_split_replicate str_split.simps)
    then have "foldl (normpath_step k) [] (str_split sep (replicate k sep)) = []"
      by (simp add: foldl_normpath_step_replicate normpath_step_def)
    with True show ?thesis by simp
  next
    case False
    have "\<forall>w \<in> set new. sep \<notin> set w" using assms(2) by (simp add: normal_comps_def)
    with False have "str_split sep (str_join sep new) = new" by (rule str_split_join)
    moreover have "foldl (normpath_step k) [] new = [] @ new"
      using assms(2) by (intro foldl_normpath_step_normal) simp
    ultimately show ?thesis
      by (simp add: str_split_replicate foldl_normpath_step_replicate)
  qed
  with k assms(3) show ?thesis by (simp add: os_path_normpath_def Let_def)
qed

lemma normpath_idem: "os_path_normpath (os_path_normpath p) = os_path_normpath p"
proof (cases "p = []")
  case True
  have "os_path_normpath [] = ''.''" by (simp add: os_path_normpath_def)
  with True show ?thesis by (simp add: normpath_dot)
next
  case False
  define k where "k = initial_slashes p"
  define new where "new = foldl (normpath_step k) [] (str_split sep p)"
  have n: "normal_comps k new"
    unfolding new_def by (intro normal_comps_foldl normal_comps_Nil) (simp add: str_split_no_sep)
  have k2: "k \<le> 2" by (simp add: k_def initial_slashes_le2)
  have eq: "os_path_normpath p =
              (if replicate k sep @ str_join sep new = [] then ''.''
               else replicate k sep @ str_join sep new)"
    using False unfolding os_path_normpath_def Let_def k_def new_def by (simp only: if_False)
  show ?thesis
  proof (cases "replicate k sep @ str_join sep new = []")
    case True
    with eq have "os_path_normpath p = ''.''" by simp
    then show ?thesis by (simp add: normpath_dot)
  next
    case ne: False
    with eq have "os_path_normpath p = replicate k sep @ str_join sep new"
      by simp
    then show ?thesis using normpath_normal[OF k2 n ne] by simp
  qed
qed

lemma normpath_isabs:
  assumes "os_path_isabs p"
  shows "os_path_isabs (os_path_normpath p)"
proof -
  from assms have "p \<noteq> []" by (auto simp: os_path_isabs_def startswith_def)
  moreover from assms have "0 < initial_slashes p"
    by (simp add: os_path_isabs_def initial_slashes_def)
  then obtain k where "initial_slashes p = Suc k" by (cases "initial_slashes p") auto
  ultimately show ?thesis
    by (simp add: os_path_normpath_def Let_def os_path_isabs_def startswith_def)
qed

lemma join_isabs: "os_path_isabs a \<Longrightarrow> os_path_isabs (os_path_join a b)"
  by (cases a) (auto simp: os_path_isabs_def startswith_def os_path_join_def)

lemma abspath_isabs: "os_path_isabs cwd \<Longrightarrow> os_path_isabs (os_path_abspath cwd p)"
  by (simp add: os_path_abspath_def normpath_isabs join_isabs)

lemma abspath_idem:
  "os_path_isabs cwd \<Longrightarrow> os_path_abspath cwd' (os_path_abspath cwd p) = os_path_abspath cwd p"
  using abspath_isabs[of cwd p]
  by (simp add: os_path_abspath_def normpath_idem)

section \<open>Properties of the chunks and of the loop of \<^verbatim>\<open>sloc\<close>\<close>

lemma chunks_Nil [simp]: "chunks n [] = []"
  by (subst chunks.simps) simp

lemma chunks_unfold: "xs \<noteq> [] \<Longrightarrow> 0 < n \<Longrightarrow> chunks n xs = take n xs # chunks n (drop n xs)"
  by (subst chunks.simps) simp

lemma concat_chunks: "0 < n \<Longrightarrow> concat (chunks n xs) = xs"
proof (induction n xs rule: chunks.induct)
  case (1 n xs)
  show ?case
  proof (cases "xs = []")
    case True then show ?thesis by simp
  next
    case False
    with 1 show ?thesis by (simp add: chunks_unfold)
  qed
qed

lemma chunks_bounds: "c \<in> set (chunks n xs) \<Longrightarrow> c \<noteq> [] \<and> length c \<le> n"
proof (induction n xs rule: chunks.induct)
  case (1 n xs)
  show ?case
  proof (cases "xs = [] \<or> n = 0")
    case True with 1(2) show ?thesis by (subst (asm) chunks.simps) simp
  next
    case False
    with 1 show ?thesis by (auto simp: chunks_unfold)
  qed
qed

lemma length_chunks_gt: "0 < n \<Longrightarrow> n < length xs \<Longrightarrow> 1 < length (chunks n xs)"
proof -
  assume n: "0 < n" and l: "n < length xs"
  then have "xs \<noteq> []" "drop n xs \<noteq> []" by auto
  with n show ?thesis by (simp add: chunks_unfold)
qed

lemma dict_get_sloc_add:
  "dict_get (sloc_add loc kv) key 0 = dict_get loc key 0 + (if fst kv = key then snd kv else 0)"
  by (cases kv) (auto simp: sloc_add_def dict_get_def update_conv' split: option.splits)

lemma dict_get_foldl_sloc_add:
  "dict_get (foldl sloc_add loc data) key 0 = dict_get loc key 0 + key_count key data"
  by (induction data arbitrary: loc) (auto simp: dict_get_sloc_add key_count_def)

lemma keys_sloc_add: "fst ` set (sloc_add loc kv) = insert (fst kv) (fst ` set loc)"
  by (cases kv) (simp add: sloc_add_def dom_update)

lemma keys_foldl_sloc_add: "fst ` set (foldl sloc_add loc data) = fst ` set loc \<union> fst ` set data"
  by (induction data arbitrary: loc) (auto simp: keys_sloc_add)

lemma distinct_foldl_sloc_add:
  "distinct (map fst loc) \<Longrightarrow> distinct (map fst (foldl sloc_add loc data))"
  by (induction data arbitrary: loc) (auto simp: sloc_add_def distinct_update split: prod.splits)

lemma sloc_loop_Nil: "sloc_loop e r [] loc calls = (Inr (Some loc), calls)"
  by (subst sloc_loop.simps) simp

lemma sloc_loop_succeeds:
  assumes "sources \<noteq> []" "tool_succeeds e r (take 100 sources) data"
  shows "sloc_loop e r sources loc calls =
           sloc_loop e r (drop 100 sources) (foldl sloc_add loc data)
             (calls @ [(sloc_command (take 100 sources), r)])"
  using assms
  by (subst sloc_loop.simps) (auto simp: tool_succeeds_def Let_def split: sum.splits)

lemma sloc_loop_unavailable:
  assumes "sources \<noteq> []" "tool_unavailable e r (take 100 sources)"
  shows "sloc_loop e r sources loc calls =
           (Inr None, calls @ [(sloc_command (take 100 sources), r)])"
  using assms
  by (subst sloc_loop.simps) (auto simp: tool_unavailable_def Let_def split: sum.splits)

lemma chunks_eq_Cons:
  assumes "chunks 100 sources = c # rest"
  shows "sources \<noteq> [] \<and> c = take 100 sources \<and> rest = chunks 100 (drop 100 sources)"
proof -
  from assms have ne: "sources \<noteq> []" by auto
  with assms show ?thesis by (simp add: chunks_unfold)
qed

lemma sloc_loop_all_succeed:
  "\<forall>c \<in> set (chunks 100 sources). tool_succeeds e r c (data c)
    \<Longrightarrow> sloc_loop e r sources loc calls =
          (Inr (Some (foldl sloc_add loc (concat (map data (chunks 100 sources))))),
           calls @ map (\<lambda>c. (sloc_command c, r)) (chunks 100 sources))"
proof (induction sources arbitrary: loc calls rule: length_induct)
  case (1 sources)
  show ?case
  proof (cases "sources = []")
    case True then show ?thesis by (simp add: sloc_loop_Nil)
  next
    case False
    then have unf: "chunks 100 sources = take 100 sources # chunks 100 (drop 100 sources)"
      by (simp add: chunks_unfold)
    with "1.prems" have ok: "tool_succeeds e r (take 100 sources) (data (take 100 sources))"
      and rest: "\<forall>c \<in> set (chunks 100 (drop 100 sources)). tool_succeeds e r c (data c)"
      by simp_all
    from False have "length (drop 100 sources) < length sources" by simp
    with "1.IH" rest have
      "sloc_loop e r (drop 100 sources) (foldl sloc_add loc (data (take 100 sources)))
         (calls @ [(sloc_command (take 100 sources), r)]) =
       (Inr (Some (foldl sloc_add (foldl sloc_add loc (data (take 100 sources)))
                     (concat (map data (chunks 100 (drop 100 sources)))))),
        (calls @ [(sloc_command (take 100 sources), r)])
          @ map (\<lambda>c. (sloc_command c, r)) (chunks 100 (drop 100 sources)))"
      by blast
    then show ?thesis
      by (simp add: sloc_loop_succeeds[OF False ok] unf)
  qed
qed

lemma sloc_loop_first_failure:
  "chunks 100 sources = pre @ c # post
    \<Longrightarrow> \<forall>c' \<in> set pre. \<exists>data. tool_succeeds e r c' data
    \<Longrightarrow> tool_unavailable e r c
    \<Longrightarrow> fst (sloc_loop e r sources loc calls) = Inr None"
proof (induction pre arbitrary: sources loc calls)
  case Nil
  then have "sources \<noteq> []" "c = take 100 sources" using chunks_eq_Cons[of sources c post] by simp_all
  with Nil(3) show ?case by (simp add: sloc_loop_unavailable)
next
  case (Cons p pre)
  from Cons.prems(1) have ne: "sources \<noteq> []" and p: "p = take 100 sources"
    and rest: "chunks 100 (drop 100 sources) = pre @ c # post"
    using chunks_eq_Cons[of sources p "pre @ c # post"] by simp_all
  from Cons.prems(2) p obtain data where ok: "tool_succeeds e r (take 100 sources) data" by auto
  from Cons.prems(2) have "\<forall>c' \<in> set pre. \<exists>data. tool_succeeds e r c' data" by simp
  from Cons.IH[OF rest this Cons.prems(3)] show ?case
    by (simp add: sloc_loop_succeeds[OF ne ok])
qed

lemma sloc_loop_no_success_calls:
  assumes "sources \<noteq> []" "\<not> (\<exists>data. tool_succeeds e r (take 100 sources) data)"
  shows "snd (sloc_loop e r sources loc calls) = calls @ [(sloc_command (take 100 sources), r)]"
  using assms
  by (subst sloc_loop.simps)
     (auto simp: tool_succeeds_def Let_def split: sum.splits error.splits)

lemma sloc_loop_calls_stop:
  "chunks 100 sources = pre @ c # post
    \<Longrightarrow> \<forall>c' \<in> set pre. \<exists>data. tool_succeeds e r c' data
    \<Longrightarrow> \<not> (\<exists>data. tool_succeeds e r c data)
    \<Longrightarrow> snd (sloc_loop e r sources loc calls)
          = calls @ map (\<lambda>c. (sloc_command c, r)) (pre @ [c])"
proof (induction pre arbitrary: sources loc calls)
  case Nil
  then have "sources \<noteq> []" "c = take 100 sources"
    using chunks_eq_Cons[of sources c post] by simp_all
  with Nil(3) show ?case by (simp add: sloc_loop_no_success_calls)
next
  case (Cons p pre)
  from Cons.prems(1) have ne: "sources \<noteq> []" and p: "p = take 100 sources"
    and rest: "chunks 100 (drop 100 sources) = pre @ c # post"
    using chunks_eq_Cons[of sources p "pre @ c # post"] by simp_all
  from Cons.prems(2) p obtain data where ok: "tool_succeeds e r (take 100 sources) data" by auto
  from Cons.prems(2) have "\<forall>c' \<in> set pre. \<exists>data. tool_succeeds e r c' data" by simp
  from Cons.IH[OF rest this Cons.prems(3)] show ?case
    by (simp add: sloc_loop_succeeds[OF ne ok] p)
qed

lemma sloc_loop_no_success:
  assumes "sources \<noteq> []" "\<not> (\<exists>data. tool_succeeds e r (take 100 sources) data)"
  shows "fst (sloc_loop e r sources loc calls) \<noteq> Inr (Some l)"
  using assms
  by (subst sloc_loop.simps)
     (auto simp: tool_succeeds_def Let_def split: sum.splits error.splits)

lemma sloc_loop_Some_all_succeed:
  "fst (sloc_loop e r sources loc calls) = Inr (Some l)
    \<Longrightarrow> \<forall>c \<in> set (chunks 100 sources). \<exists>data. tool_succeeds e r c data"
proof (induction sources arbitrary: loc calls rule: length_induct)
  case (1 sources)
  show ?case
  proof (cases "sources = []")
    case True then show ?thesis by simp
  next
    case False
    then have unf: "chunks 100 sources = take 100 sources # chunks 100 (drop 100 sources)"
      by (simp add: chunks_unfold)
    from False "1.prems" obtain data where ok: "tool_succeeds e r (take 100 sources) data"
      using sloc_loop_no_success[of sources e r loc calls l] by blast
    from False have "length (drop 100 sources) < length sources" by simp
    moreover from "1.prems" have
      "fst (sloc_loop e r (drop 100 sources) (foldl sloc_add loc data)
             (calls @ [(sloc_command (take 100 sources), r)])) = Inr (Some l)"
      by (simp add: sloc_loop_succeeds[OF False ok])
    ultimately have "\<forall>c \<in> set (chunks 100 (drop 100 sources)). \<exists>data. tool_succeeds e r c data"
      using "1.IH" by blast
    with ok show ?thesis by (auto simp: unf)
  qed
qed

lemma sorted_list_of_set_fixed:
  "sorted xs \<Longrightarrow> distinct xs \<Longrightarrow> sorted_list_of_set (set xs) = xs"
  by (simp add: sorted_list_of_set_sort_remdups sorted_sort_id)

lemma key_count_concat:
  "key_count key (concat (map data cs)) = (\<Sum>c\<leftarrow>cs. key_count key (data c))"
  by (induction cs) (simp_all add: key_count_def)

lemma map_of_dict_get:
  "map_of loc key = (if key \<in> fst ` set loc then Some (dict_get loc key 0) else None)"
  by (auto simp: dict_get_def map_of_eq_None_iff split: option.splits)

lemma Source_sloc_all_succeed:
  assumes "\<forall>c \<in> set (chunks 100 fs). tool_succeeds e r c (data c)"
  shows "\<exists>loc. Source_sloc e fs r = (Inr (Some loc), map (\<lambda>c. (sloc_command c, r)) (chunks 100 fs))
           \<and> distinct (map fst loc)
           \<and> fst ` set loc = (\<Union>c \<in> set (chunks 100 fs). fst ` set (data c))
           \<and> (\<forall>key. dict_get loc key 0 = (\<Sum>c\<leftarrow>chunks 100 fs. key_count key (data c)))"
proof -
  let ?loc = "foldl sloc_add [] (concat (map data (chunks 100 fs)))"
  have "Source_sloc e fs r = (Inr (Some ?loc), map (\<lambda>c. (sloc_command c, r)) (chunks 100 fs))"
    unfolding Source_sloc_def using sloc_loop_all_succeed[OF assms, of "[]" "[]"] by simp
  moreover have "distinct (map fst ?loc)" by (rule distinct_foldl_sloc_add) simp
  moreover have "fst ` set ?loc = (\<Union>c \<in> set (chunks 100 fs). fst ` set (data c))"
    by (auto simp: keys_foldl_sloc_add)
  moreover have "dict_get [] key 0 = 0" for key by (simp add: dict_get_def)
  then have "\<forall>key. dict_get ?loc key 0 = (\<Sum>c\<leftarrow>chunks 100 fs. key_count key (data c))"
    by (simp add: dict_get_foldl_sloc_add key_count_concat)
  ultimately show ?thesis by blast
qed

lemma chunks_101: "chunks 100 (replicate 101 x) = [replicate 100 x, [x]]"
proof -
  have "chunks 100 (replicate 101 x) = take 100 (replicate 101 x) # chunks 100 (drop 100 (replicate 101 x))"
    by (rule chunks_unfold) simp_all
  moreover have "drop 100 (replicate 101 x) = [x]" by simp
  moreover have "chunks 100 [x] = [[x]]" by (simp add: chunks_unfold)
  ultimately show ?thesis by simp
qed

lemma Source_init_no_sloc:
  "Source_init e ra fa False =
     Inr \<lparr>root = (case ra of None \<Rightarrow> []
                   | Some r \<Rightarrow> if r \<noteq> [] then srcloct_abspath (getcwd e) r else []),
          all_files = sorted_list_of_set
                        (set (map (srcloct_abspath (getcwd e)) (case fa of None \<Rightarrow> [] | Some l \<Rightarrow> l))),
          files = map (relative_to (case ra of None \<Rightarrow> []
                   | Some r \<Rightarrow> if r \<noteq> [] then srcloct_abspath (getcwd e) r else []))
                    (filter (\<lambda>path. startswith path (case ra of None \<Rightarrow> []
                   | Some r \<Rightarrow> if r \<noteq> [] then srcloct_abspath (getcwd e) r else []))
                       (sorted_list_of_set
                        (set (map (srcloct_abspath (getcwd e)) (case fa of None \<Rightarrow> [] | Some l \<Rightarrow> l))))),
          lines_of_code = None\<rparr>"
  by (simp add: Source_init_def Let_def validate_def relative_to_def)

lemma Source_init_with_sloc:
  assumes "Source_init e ra fa False = Inr s"
  shows "Source_init e ra fa True =
           (case fst (Source_sloc e (files s) (root s)) of
              Inl err \<Rightarrow> Inl err
            | Inr None \<Rightarrow> Inr s
            | Inr (Some loc) \<Rightarrow> if loc \<noteq> [] then Inr (s\<lparr>lines_of_code := Some loc\<rparr>) else Inr s)"
  using assms
  by (auto simp: Source_init_def Let_def validate_def split: sum.splits option.splits)

lemma Source_init_fields:
  assumes "Source_init e ra fa sl = Inr s"
  shows "Source_init e ra fa False = Inr (s\<lparr>lines_of_code := None\<rparr>)"
  using assms
  by (auto simp: Source_init_def Let_def validate_def split: sum.splits option.splits if_splits)

lemma Source_init_result:
  assumes "Source_init e ra fa sl = Inr s"
  shows "root s = (case ra of None \<Rightarrow> []
                   | Some r \<Rightarrow> if r \<noteq> [] then srcloct_abspath (getcwd e) r else [])"
    and "all_files s = sorted_list_of_set
                        (set (map (srcloct_abspath (getcwd e)) (case fa of None \<Rightarrow> [] | Some l \<Rightarrow> l)))"
    and "files s = map (relative_to (root s)) (filter (\<lambda>path. startswith path (root s)) (all_files s))"
proof -
  from assms have "Source_init e ra fa False = Inr (s\<lparr>lines_of_code := None\<rparr>)"
    by (rule Source_init_fields)
  then have eq: "s\<lparr>lines_of_code := None\<rparr> =
     \<lparr>root = (case ra of None \<Rightarrow> []
                   | Some r \<Rightarrow> if r \<noteq> [] then srcloct_abspath (getcwd e) r else []),
          all_files = sorted_list_of_set
                        (set (map (srcloct_abspath (getcwd e)) (case fa of None \<Rightarrow> [] | Some l \<Rightarrow> l))),
          files = map (relative_to (case ra of None \<Rightarrow> []
                   | Some r \<Rightarrow> if r \<noteq> [] then srcloct_abspath (getcwd e) r else []))
                    (filter (\<lambda>path. startswith path (case ra of None \<Rightarrow> []
                   | Some r \<Rightarrow> if r \<noteq> [] then srcloct_abspath (getcwd e) r else []))
                       (sorted_list_of_set
                        (set (map (srcloct_abspath (getcwd e)) (case fa of None \<Rightarrow> [] | Some l \<Rightarrow> l))))),
          lines_of_code = None\<rparr>"
    by (simp only: Source_init_no_sloc sum.inject)
  from arg_cong[OF eq, of root] show r: "root s = (case ra of None \<Rightarrow> []
                   | Some r \<Rightarrow> if r \<noteq> [] then srcloct_abspath (getcwd e) r else [])"
    by simp
  from arg_cong[OF eq, of all_files] show a: "all_files s = sorted_list_of_set
                        (set (map (srcloct_abspath (getcwd e)) (case fa of None \<Rightarrow> [] | Some l \<Rightarrow> l)))"
    by simp
  from arg_cong[OF eq, of files] r a
  show "files s = map (relative_to (root s)) (filter (\<lambda>path. startswith path (root s)) (all_files s))"
    by simp
qed

lemma merge_unfold:
  "merge sources =
     (if card (root ` set sources) \<noteq> 1
      then Inl (UserWarning ''Source lists have different roots: {}'' (remdups (map root sources)))
      else Inr (hd (remdups (map root sources)), remdups (concat (map all_files sources))))"
  by (simp add: merge_def Let_def length_remdups_card_conv)

lemma hd_remdups_singleton:
  assumes "set xs = {r}"
  shows "hd (remdups xs) = r"
proof -
  from assms have "set (remdups xs) = {r}" by simp
  then have "remdups xs \<noteq> []" by auto
  then have "hd (remdups xs) \<in> set (remdups xs)" by (rule hd_in_set)
  with \<open>set (remdups xs) = {r}\<close> show ?thesis by simp
qed

lemma Source_init_all_files_set:
  assumes "Source_init e ra fa sl = Inr s"
  shows "set (all_files s)
          = srcloct_abspath (getcwd e) ` set (case fa of None \<Rightarrow> [] | Some l \<Rightarrow> l)"
  using Source_init_result(2)[OF assms] by (cases fa) simp_all

lemma Source_init_sorted:
  assumes "Source_init e ra fa sl = Inr s"
  shows "sorted (all_files s) \<and> distinct (all_files s)"
  using Source_init_result(2)[OF assms] by simp

lemma SourceFromJson_init_Source:
  "SourceFromJson_init e js sl = Inr s \<Longrightarrow> \<exists>ra fa. Source_init e ra fa sl = Inr s"
  by (auto simp: SourceFromJson_init_def split: option.splits if_splits sum.splits prod.splits)

lemma SourceFromGoto_init_Source:
  "SourceFromGoto_init e g w d sl = Inr s \<Longrightarrow> \<exists>ra fa. Source_init e ra fa sl = Inr s"
  by (auto simp: SourceFromGoto_init_def split: if_splits sum.splits)

lemma SourceFromFind_init_Source:
  "SourceFromFind_init e r ex ext sl = Inr s \<Longrightarrow> \<exists>ra fa. Source_init e ra fa sl = Inr s"
  by (auto simp: SourceFromFind_init_def split: sum.splits)

lemma SourceFromWalk_init_Source:
  "SourceFromWalk_init e r ex ext sl = Inr s \<Longrightarrow> \<exists>ra fa. Source_init e ra fa sl = Inr s"
  by (auto simp: SourceFromWalk_init_def)

lemma SourceFromMake_init_Source:
  "SourceFromMake_init e r b sl = Inr s \<Longrightarrow> \<exists>ra fa. Source_init e ra fa sl = Inr s"
  by (auto simp: SourceFromMake_init_def split: sum.splits)

lemma make_source_Source:
  assumes "make_source e vs g m sd wd ex ext = Inr s"
  shows "\<exists>ra fa sl. Source_init e ra fa sl = Inr s"
proof -
  from assms consider
      (json) "SourceFromJson_init e vs False = Inr s"
    | (goto) w d where "SourceFromGoto_init e g w d False = Inr s"
    | (make) r b where "SourceFromMake_init e r b True = Inr s"
    | (find) r where "SourceFromFind_init e r ex ext False = Inr s"
    | (walk) r where "SourceFromWalk_init e r ex ext False = Inr s"
    | (none) "Source_init e None None False = Inr s"
    unfolding make_source_def Let_def fail_def
    by (auto split: if_splits)
  then show ?thesis
  proof cases
    case json then show ?thesis using SourceFromJson_init_Source by blast
  next
    case goto then show ?thesis using SourceFromGoto_init_Source by blast
  next
    case make then show ?thesis using SourceFromMake_init_Source by blast
  next
    case find then show ?thesis using SourceFromFind_init_Source by blast
  next
    case walk then show ?thesis using SourceFromWalk_init_Source by blast
  next
    case none then show ?thesis by blast
  qed
qed

lemma Source_init_root_fixed:
  assumes "os_path_isabs (getcwd e0)" "Source_init e0 ra fa sl = Inr s"
  shows "(if root s \<noteq> [] then srcloct_abspath cwd (root s) else []) = root s"
proof (cases "root s = []")
  case True then show ?thesis by simp
next
  case False
  with Source_init_result(1)[OF assms(2)] obtain r where "root s = srcloct_abspath (getcwd e0) r"
    by (auto split: option.splits if_splits)
  with assms(1) False show ?thesis by (simp add: srcloct_abspath_def abspath_idem)
qed

lemma Source_init_all_files_fixed:
  assumes "os_path_isabs (getcwd e0)" "Source_init e0 ra fa sl = Inr s"
  shows "map (srcloct_abspath cwd) (all_files s) = all_files s"
proof (rule map_idI)
  fix p assume "p \<in> set (all_files s)"
  with Source_init_all_files_set[OF assms(2)] obtain q where "p = srcloct_abspath (getcwd e0) q"
    by auto
  with assms(1) show "srcloct_abspath cwd p = p" by (simp add: srcloct_abspath_def abspath_idem)
qed

lemma Source_init_reconstruct:
  assumes "os_path_isabs (getcwd e0)" "Source_init e0 ra fa sl = Inr s"
  shows "Source_init e (Some (root s)) (Some (all_files s)) False = Inr (s\<lparr>lines_of_code := None\<rparr>)"
proof -
  note sd = Source_init_sorted[OF assms(2)]
  have r: "(if root s \<noteq> [] then srcloct_abspath (getcwd e) (root s) else []) = root s"
    using assms by (rule Source_init_root_fixed)
  have "map (srcloct_abspath (getcwd e)) (all_files s) = all_files s"
    using assms by (rule Source_init_all_files_fixed)
  then have a: "sorted_list_of_set (set (map (srcloct_abspath (getcwd e)) (all_files s))) = all_files s"
    using sd by (simp only: sorted_list_of_set_fixed)
  have f: "files s = map (relative_to (root s))
                       (filter (\<lambda>path. startswith path (root s)) (all_files s))"
    using assms(2) by (rule Source_init_result(3))
  have "Source_init e (Some (root s)) (Some (all_files s)) False
          = Inr \<lparr>root = root s, all_files = all_files s, files = files s, lines_of_code = None\<rparr>"
    unfolding Source_init_no_sloc option.case r a using f by simp
  then show ?thesis by simp
qed

lemma those_map_Some:
  "\<forall>x \<in> set xs. f x \<noteq> None \<Longrightarrow> those (map f xs) = Some (map (\<lambda>x. the (f x)) xs)"
  by (induction xs) auto

lemma search_quoted_skip:
  "CHR 0x22 \<notin> set pre \<Longrightarrow> search_quoted (pre @ s) = search_quoted s"
  by (induction pre) (auto simp: Let_def)

lemma takeWhile_neq_append:
  "c \<notin> set xs \<Longrightarrow> takeWhile (\<lambda>x. x \<noteq> c) (xs @ ys) = xs @ takeWhile (\<lambda>x. x \<noteq> c) ys"
  by (induction xs) auto

lemma dropWhile_neq_append:
  "c \<notin> set xs \<Longrightarrow> dropWhile (\<lambda>x. x \<noteq> c) (xs @ c # ys) = c # ys"
  by (induction xs) auto

lemma search_quoted_between:
  assumes "CHR 0x22 \<notin> set pre" "CHR 0x22 \<notin> set name" "CHR 0x0A \<notin> set name"
    "CHR 0x22 \<notin> set post"
  shows "search_quoted (pre @ CHR 0x22 # name @ CHR 0x22 # post) = Some name"
proof -
  let ?seg = "takeWhile (\<lambda>x. x \<noteq> CHR 0x0A) (name @ CHR 0x22 # post)"
  let ?tail = "takeWhile (\<lambda>x. x \<noteq> CHR 0x0A) post"
  have seg: "?seg = name @ CHR 0x22 # ?tail"
    using assms(3) by (simp add: takeWhile_neq_append)
  have "CHR 0x22 \<notin> set ?tail" using assms(4) by (auto dest: set_takeWhileD)
  then have "CHR 0x22 \<notin> set (rev ?tail)" by simp
  then have "dropWhile (\<lambda>x. x \<noteq> CHR 0x22) (rev ?tail @ CHR 0x22 # rev name) = CHR 0x22 # rev name"
    by (rule dropWhile_neq_append)
  then have "rev (tl (dropWhile (\<lambda>x. x \<noteq> CHR 0x22) (rev ?seg))) = name"
    by (simp add: seg)
  moreover have "CHR 0x22 \<in> set ?seg" by (simp add: seg)
  ultimately have "search_quoted (CHR 0x22 # name @ CHR 0x22 # post) = Some name"
    by (simp add: Let_def)
  with assms(1) show ?thesis by (simp add: search_quoted_skip)
qed

lemma example_extract:
  "extract_source_filenames
     [linemarker ''1'' ''/src/foo.c'' '' 1'', linemarker ''1'' ''<built-in>'' '' 3'',
      ''#define X 1'', linemarker ''7'' ''../inc//bar.h'' '' 2'', ''int x;''] ''/proj/build''
   = Inr [''/proj/inc/bar.h'', ''/src/foo.c'']"
  by code_simp


lemma those_Some_all: "those xs = Some ys \<Longrightarrow> None \<notin> set xs"
  by (induction xs arbitrary: ys) (auto split: option.splits)

lemma extract_source_filenames_quoted:
  assumes "\<forall>line \<in> set output. startswith (py_strip line) ''# '' \<longrightarrow> search_quoted line \<noteq> None"
  shows "\<exists>fs. extract_source_filenames output build = Inr fs
            \<and> sorted fs \<and> distinct fs
            \<and> set fs = {os_path_normpath (os_path_join build name) | line name.
                          line \<in> set output \<and> startswith (py_strip line) ''# ''
                          \<and> search_quoted line = Some name
                          \<and> os_path_basename name
                              \<notin> {''<built-in>'', ''<command-line>'', ''<command line>''}}"
proof -
  let ?markers = "filter (\<lambda>line. startswith (py_strip line) ''# '') output"
  from assms have "\<forall>line \<in> set ?markers. search_quoted line \<noteq> None" by simp
  then have th: "those (map search_quoted ?markers) = Some (map (\<lambda>x. the (search_quoted x)) ?markers)"
    by (rule those_map_Some)
  let ?fs = "sorted_list_of_set (set (map os_path_normpath (map (os_path_join build)
               (filter (\<lambda>name. os_path_basename name
                                  \<notin> set [''<built-in>'', ''<command-line>'', ''<command line>''])
                  (map (\<lambda>x. the (search_quoted x)) ?markers)))))"
  have res: "extract_source_filenames output build = Inr ?fs"
    by (simp only: extract_source_filenames_def Let_def th option.case)
  have "set ?fs = {os_path_normpath (os_path_join build name) | line name.
                          line \<in> set output \<and> startswith (py_strip line) ''# ''
                          \<and> search_quoted line = Some name
                          \<and> os_path_basename name
                              \<notin> {''<built-in>'', ''<command-line>'', ''<command line>''}}"
    (is "_ = ?rhs")
  proof
    show "set ?fs \<subseteq> ?rhs"
    proof
      fix p assume "p \<in> set ?fs"
      then obtain line where line: "line \<in> set output" "startswith (py_strip line) ''# ''"
        and base: "os_path_basename (the (search_quoted line))
                     \<notin> {''<built-in>'', ''<command-line>'', ''<command line>''}"
        and p: "p = os_path_normpath (os_path_join build (the (search_quoted line)))"
        by auto
      from assms line obtain name where "search_quoted line = Some name" by auto
      with line base p show "p \<in> ?rhs" by auto
    qed
    show "?rhs \<subseteq> set ?fs" by force
  qed
  moreover have "sorted ?fs" "distinct ?fs" by simp_all
  ultimately show ?thesis using res by blast
qed

lemma extract_source_filenames_returns:
  assumes "extract_source_filenames output build = Inr fs"
  shows "\<forall>line \<in> set output. startswith (py_strip line) ''# '' \<longrightarrow> search_quoted line \<noteq> None"
proof -
  let ?markers = "filter (\<lambda>line. startswith (py_strip line) ''# '') output"
  from assms obtain names where "those (map search_quoted ?markers) = Some names"
    by (auto simp: extract_source_filenames_def Let_def split: option.splits)
  then have "None \<notin> set (map search_quoted ?markers)" by (rule those_Some_all)
  then show ?thesis by force
qed

section \<open>The empty source set\<close>

text \<open>
  Claim C7.  Constructing a \<^verbatim>\<open>Source\<close> with no root and no (or an empty) file list
  succeeds, with the empty string as root and empty lists as \<open>files\<close> and \<open>all_files\<close>,
  whether statistics are asked for or not; and \<^verbatim>\<open>make_source\<close>, given no viewer-source
  documents (\<^verbatim>\<open>None\<close> or an empty list) and no source method, returns this empty source
  set, whatever its other arguments are.
\<close>

theorem empty_source_set:
  "Source_init e None None sloc
     = Inr \<lparr>root = [], all_files = [], files = [], lines_of_code = None\<rparr>
   \<and> Source_init e None (Some []) sloc
     = Inr \<lparr>root = [], all_files = [], files = [], lines_of_code = None\<rparr>
   \<and> make_source e None goto None srcdir wkdir exclude extensions
     = Inr \<lparr>root = [], all_files = [], files = [], lines_of_code = None\<rparr>
   \<and> make_source e (Some []) goto None srcdir wkdir exclude extensions
     = Inr \<lparr>root = [], all_files = [], files = [], lines_of_code = None\<rparr>"
  by (simp add: Source_init_def make_source_def Source_sloc_def sloc_loop_Nil validate_def Let_def)

section \<open>Line statistics\<close>

text \<open>
  Claim C5, as amended.  \<^verbatim>\<open>Source.sloc\<close> cuts the file list into its successive chunks
  of at most 100 paths (non-empty, and concatenating to the list) and runs the counting
  tool, \<^verbatim>\<open>sloc -f json\<close> followed by the paths of a chunk, with \<open>root\<close> as working
  directory, on the chunks in order: the calls it makes are those for an initial segment
  of the chunks, and when a chunk is the first on which the tool does not succeed, they
  are the calls for the chunks up to and including that one.  When the tool succeeds on
  every chunk, with summary \<open>data c\<close> on chunk \<open>c\<close>, there is exactly one call per
  chunk and the result is a dict whose keys are the keys of the summaries and whose value
  at a key is the sum of the key's counts over the chunks; a list of more than 100 files
  then makes more than one call.
\<close>

theorem sloc_batches_and_sums:
  "concat (chunks 100 fs) = fs
   \<and> (\<forall>c \<in> set (chunks 100 fs). c \<noteq> [] \<and> length c \<le> 100)
   \<and> prefix (snd (Source_sloc e fs r))
        (map (\<lambda>c. ([''sloc'', ''-f'', ''json''] @ c, r)) (chunks 100 fs))
   \<and> (\<forall>pre c post.
         chunks 100 fs = pre @ c # post
         \<and> (\<forall>c' \<in> set pre. \<exists>result d.
                runt_run e ([''sloc'', ''-f'', ''json''] @ c') r [] = Inr result
                \<and> json_summary e result = Inr d)
         \<and> \<not> (\<exists>result d.
                runt_run e ([''sloc'', ''-f'', ''json''] @ c) r [] = Inr result
                \<and> json_summary e result = Inr d)
         \<longrightarrow> snd (Source_sloc e fs r)
               = map (\<lambda>c. ([''sloc'', ''-f'', ''json''] @ c, r)) (pre @ [c]))
   \<and> ((\<forall>c \<in> set (chunks 100 fs). \<exists>result.
          runt_run e ([''sloc'', ''-f'', ''json''] @ c) r [] = Inr result
          \<and> json_summary e result = Inr (data c))
       \<longrightarrow> (\<exists>loc. Source_sloc e fs r
                    = (Inr (Some loc),
                       map (\<lambda>c. ([''sloc'', ''-f'', ''json''] @ c, r)) (chunks 100 fs))
               \<and> (\<forall>key. map_of loc key =
                      (if key \<in> (\<Union>c \<in> set (chunks 100 fs). fst ` set (data c))
                       then Some (\<Sum>c\<leftarrow>chunks 100 fs. key_count key (data c))
                       else None)))
           \<and> (100 < length fs \<longrightarrow> 1 < length (snd (Source_sloc e fs r))))"
proof -
  let ?cmd = "\<lambda>c. ([''sloc'', ''-f'', ''json''] @ c, r)"
  have cmd: "(\<lambda>c. (sloc_command c, r)) = ?cmd" by (simp add: sloc_command_def)
  have ok: "tool_succeeds e r c d \<longleftrightarrow>
              (\<exists>result. runt_run e ([''sloc'', ''-f'', ''json''] @ c) r [] = Inr result
                 \<and> json_summary e result = Inr d)" for c d
    by (cases "runt_run e ([''sloc'', ''-f'', ''json''] @ c) r []")
       (simp_all add: tool_succeeds_def sloc_command_def)
  have ok2: "(\<exists>d. tool_succeeds e r c d) \<longleftrightarrow>
              (\<exists>result d. runt_run e ([''sloc'', ''-f'', ''json''] @ c) r [] = Inr result
                 \<and> json_summary e result = Inr d)" for c
    unfolding ok by (rule ex_comm)
  have whole: "concat (chunks 100 fs) = fs" by (simp add: concat_chunks)
  have bounds: "\<forall>c \<in> set (chunks 100 fs). c \<noteq> [] \<and> length c \<le> 100"
    using chunks_bounds[of _ 100 fs] by simp
  have stop: "snd (Source_sloc e fs r) = map ?cmd (pre @ [c])"
    if "chunks 100 fs = pre @ c # post"
      and "\<forall>c' \<in> set pre. \<exists>d. tool_succeeds e r c' d"
      and "\<not> (\<exists>d. tool_succeeds e r c d)" for pre c post
  proof -
    have "snd (sloc_loop e r fs [] []) = [] @ map (\<lambda>c. (sloc_command c, r)) (pre @ [c])"
      using that by (rule sloc_loop_calls_stop)
    then show ?thesis by (simp only: Source_sloc_def cmd append_Nil)
  qed
  have all: "(\<exists>loc. Source_sloc e fs r = (Inr (Some loc), map ?cmd (chunks 100 fs))
               \<and> (\<forall>key. map_of loc key =
                      (if key \<in> (\<Union>c \<in> set (chunks 100 fs). fst ` set (dat c))
                       then Some (\<Sum>c\<leftarrow>chunks 100 fs. key_count key (dat c))
                       else None)))
           \<and> (100 < length fs \<longrightarrow> 1 < length (snd (Source_sloc e fs r)))"
    if h: "\<forall>c \<in> set (chunks 100 fs). tool_succeeds e r c (dat c)" for dat
  proof -
    from Source_sloc_all_succeed[OF h] obtain loc where
      run: "Source_sloc e fs r = (Inr (Some loc), map ?cmd (chunks 100 fs))"
      and keys: "fst ` set loc = (\<Union>c \<in> set (chunks 100 fs). fst ` set (dat c))"
      and vals: "\<forall>key. dict_get loc key 0 = (\<Sum>c\<leftarrow>chunks 100 fs. key_count key (dat c))"
      unfolding cmd by blast
    have m: "\<forall>key. map_of loc key =
            (if key \<in> (\<Union>c \<in> set (chunks 100 fs). fst ` set (dat c))
             then Some (\<Sum>c\<leftarrow>chunks 100 fs. key_count key (dat c)) else None)"
      using keys vals map_of_dict_get[of loc] by simp
    have l: "100 < length fs \<longrightarrow> 1 < length (snd (Source_sloc e fs r))"
      using run length_chunks_gt[of 100 fs] by simp
    from run m have "\<exists>loc. Source_sloc e fs r = (Inr (Some loc), map ?cmd (chunks 100 fs))
               \<and> (\<forall>key. map_of loc key =
                      (if key \<in> (\<Union>c \<in> set (chunks 100 fs). fst ` set (dat c))
                       then Some (\<Sum>c\<leftarrow>chunks 100 fs. key_count key (dat c))
                       else None))"
      by (intro exI[of _ loc] conjI)
    with l show ?thesis by (intro conjI)
  qed
  have pre: "prefix (snd (Source_sloc e fs r)) (map ?cmd (chunks 100 fs))"
  proof (cases "\<forall>c \<in> set (chunks 100 fs). \<exists>d. tool_succeeds e r c d")
    case True
    then have "\<exists>dat. \<forall>c \<in> set (chunks 100 fs). tool_succeeds e r c (dat c)" by (rule bchoice)
    then obtain dat where "\<forall>c \<in> set (chunks 100 fs). tool_succeeds e r c (dat c)" ..
    from all[OF this] obtain loc where
      "Source_sloc e fs r = (Inr (Some loc), map ?cmd (chunks 100 fs))" by (elim conjE exE)
    then show ?thesis by simp
  next
    case False
    then have "\<exists>c \<in> set (chunks 100 fs). \<not> (\<exists>d. tool_succeeds e r c d)" by simp
    from split_list_first_prop[OF this] obtain pre c post where
      sp: "chunks 100 fs = pre @ c # post"
      and c: "\<not> (\<exists>d. tool_succeeds e r c d)"
      and p: "\<forall>y \<in> set pre. \<not> \<not> (\<exists>d. tool_succeeds e r y d)"
      by (elim exE conjE)
    from p have "\<forall>c' \<in> set pre. \<exists>d. tool_succeeds e r c' d" by simp
    from stop[OF sp this c] show ?thesis by (simp add: sp)
  qed
  have stop': "\<forall>pre c post.
         chunks 100 fs = pre @ c # post
         \<and> (\<forall>c' \<in> set pre. \<exists>result d.
                runt_run e ([''sloc'', ''-f'', ''json''] @ c') r [] = Inr result
                \<and> json_summary e result = Inr d)
         \<and> \<not> (\<exists>result d.
                runt_run e ([''sloc'', ''-f'', ''json''] @ c) r [] = Inr result
                \<and> json_summary e result = Inr d)
         \<longrightarrow> snd (Source_sloc e fs r) = map ?cmd (pre @ [c])"
    unfolding ok2[symmetric] using stop by (intro allI impI) (elim conjE)
  have all': "(\<forall>c \<in> set (chunks 100 fs). \<exists>result.
          runt_run e ([''sloc'', ''-f'', ''json''] @ c) r [] = Inr result
          \<and> json_summary e result = Inr (data c))
       \<longrightarrow> (\<exists>loc. Source_sloc e fs r = (Inr (Some loc), map ?cmd (chunks 100 fs))
               \<and> (\<forall>key. map_of loc key =
                      (if key \<in> (\<Union>c \<in> set (chunks 100 fs). fst ` set (data c))
                       then Some (\<Sum>c\<leftarrow>chunks 100 fs. key_count key (data c))
                       else None)))
           \<and> (100 < length fs \<longrightarrow> 1 < length (snd (Source_sloc e fs r)))"
    unfolding ok[symmetric] using all[of data] by (intro impI)
  from whole bounds pre stop' all' show ?thesis by (intro conjI)
qed

theorem sloc_batches_and_sums_witness:
  "chunks 100 (replicate 101 ''a.c'') = [replicate 100 ''a.c'', [''a.c'']]
   \<and> runt_run env_counting ([''sloc'', ''-f'', ''json''] @ replicate 100 ''a.c'') ''/src'' [] = Inr ''{}''
   \<and> runt_run env_counting ([''sloc'', ''-f'', ''json''] @ [''a.c'']) ''/src'' [] = Inr ''{}''
   \<and> json_summary env_counting ''{}'' = Inr [(''total'', 5), (''source'', 3)]
   \<and> (\<exists>loc. Source_sloc env_counting (replicate 101 ''a.c'') ''/src''
              = (Inr (Some loc),
                 [([''sloc'', ''-f'', ''json''] @ replicate 100 ''a.c'', ''/src''),
                  ([''sloc'', ''-f'', ''json''] @ [''a.c''], ''/src'')])
            \<and> map_of loc ''total'' = Some 10 \<and> map_of loc ''source'' = Some 6
            \<and> map_of loc ''comment'' = None)"
proof -
  have h: "\<forall>c \<in> set (chunks 100 (replicate 101 ''a.c'')). \<exists>result.
             runt_run env_counting ([''sloc'', ''-f'', ''json''] @ c) ''/src'' [] = Inr result
             \<and> json_summary env_counting result = Inr [(''total'', 5), (''source'', 3)]"
    by (simp add: env_counting_def)
  note t = sloc_batches_and_sums[of "replicate 101 ''a.c''" env_counting "''/src''"
                    "\<lambda>c. [(''total'', 5), (''source'', 3)]"]
  note t5 = t[THEN conjunct2, THEN conjunct2, THEN conjunct2, THEN conjunct2]
  from mp[OF t5 h, THEN conjunct1] obtain loc where
    run: "Source_sloc env_counting (replicate 101 ''a.c'') ''/src''
       = (Inr (Some loc),
          map (\<lambda>c. ([''sloc'', ''-f'', ''json''] @ c, ''/src'')) (chunks 100 (replicate 101 ''a.c'')))"
    and m: "\<forall>key. map_of loc key =
       (if key \<in> (\<Union>c \<in> set (chunks 100 (replicate 101 ''a.c'')). fst ` set [(''total'', 5::int), (''source'', 3)])
        then Some (\<Sum>c\<leftarrow>chunks 100 (replicate 101 ''a.c''). key_count key [(''total'', 5), (''source'', 3)])
        else None)"
    by (elim exE conjE)
  from run have r2: "Source_sloc env_counting (replicate 101 ''a.c'') ''/src''
              = (Inr (Some loc),
                 [([''sloc'', ''-f'', ''json''] @ replicate 100 ''a.c'', ''/src''),
                  ([''sloc'', ''-f'', ''json''] @ [''a.c''], ''/src'')])"
    by (simp add: chunks_101)
  from m have vals: "map_of loc ''total'' = Some 10" "map_of loc ''source'' = Some 6"
    "map_of loc ''comment'' = None"
    by (simp_all add: chunks_101 key_count_def)
  have env: "runt_run env_counting ([''sloc'', ''-f'', ''json''] @ replicate 100 ''a.c'') ''/src'' [] = Inr ''{}''"
    "runt_run env_counting ([''sloc'', ''-f'', ''json''] @ [''a.c'']) ''/src'' [] = Inr ''{}''"
    "json_summary env_counting ''{}'' = Inr [(''total'', 5), (''source'', 3)]"
    by (simp_all add: env_counting_def)
  from r2 vals have "\<exists>loc. Source_sloc env_counting (replicate 101 ''a.c'') ''/src''
              = (Inr (Some loc),
                 [([''sloc'', ''-f'', ''json''] @ replicate 100 ''a.c'', ''/src''),
                  ([''sloc'', ''-f'', ''json''] @ [''a.c''], ''/src'')])
            \<and> map_of loc ''total'' = Some 10 \<and> map_of loc ''source'' = Some 6
            \<and> map_of loc ''comment'' = None"
    by (intro exI[of _ loc] conjI)
  with chunks_101[of "''a.c''"] env show ?thesis by (intro conjI)
qed

text \<open>
  The claim as stated, that the tool is invoked once per chunk and that more than 100
  files cause more than one invocation, fails when the binary is missing: 101 files make
  two chunks, and the tool is called once.
\<close>

theorem sloc_single_call_counterexample:
  "100 < length (replicate 101 ''a.c'')
   \<and> chunks 100 (replicate 101 ''a.c'') = [replicate 100 ''a.c'', [''a.c'']]
   \<and> Source_sloc env_no_tool (replicate 101 ''a.c'') ''/src''
       = (Inr None, [([''sloc'', ''-f'', ''json''] @ replicate 100 ''a.c'', ''/src'')])"
proof -
  have "tool_unavailable env_no_tool ''/src'' (take 100 (replicate 101 ''a.c''))"
    by (simp add: tool_unavailable_def env_no_tool_def)
  then have "sloc_loop env_no_tool ''/src'' (replicate 101 ''a.c'') [] []
               = (Inr None, [] @ [(sloc_command (take 100 (replicate 101 ''a.c'')), ''/src'')])"
    by (intro sloc_loop_unavailable) simp
  then have "Source_sloc env_no_tool (replicate 101 ''a.c'') ''/src''
       = (Inr None, [([''sloc'', ''-f'', ''json''] @ replicate 100 ''a.c'', ''/src'')])"
    by (simp add: Source_sloc_def sloc_command_def)
  with chunks_101[of "''a.c''"] show ?thesis by simp
qed

text \<open>
  Claim C8.  The statistics are all or nothing.  If the tool is unavailable (binary
  missing, argument list too long, nonzero exit) on a chunk, those before it having
  succeeded, the loop returns \<^verbatim>\<open>None\<close> whatever counts \<open>loc\<close> it had accumulated, and so
  does \<^verbatim>\<open>sloc\<close>.  If \<^verbatim>\<open>sloc\<close> returns a dict, the tool succeeded on every chunk and
  the dict holds the sums over all the chunks.
\<close>

theorem sloc_all_or_nothing:
  "(chunks 100 fs = pre @ c # post
      \<and> (\<forall>c' \<in> set pre. \<exists>data. tool_succeeds e r c' data)
      \<and> tool_unavailable e r c
    \<longrightarrow> fst (sloc_loop e r fs loc calls) = Inr None \<and> fst (Source_sloc e fs r) = Inr None)
   \<and> (\<forall>l. fst (Source_sloc e fs r) = Inr (Some l)
        \<longrightarrow> (\<exists>data. (\<forall>c \<in> set (chunks 100 fs). tool_succeeds e r c (data c))
                   \<and> (\<forall>key. dict_get l key 0
                               = (\<Sum>c\<leftarrow>chunks 100 fs. key_count key (data c)))))"
proof (intro conjI impI allI)
  assume a: "chunks 100 fs = pre @ c # post
      \<and> (\<forall>c' \<in> set pre. \<exists>data. tool_succeeds e r c' data)
      \<and> tool_unavailable e r c"
  then show "fst (sloc_loop e r fs loc calls) = Inr None"
    using sloc_loop_first_failure[of fs pre c post e r loc calls] by blast
  from a show "fst (Source_sloc e fs r) = Inr None"
    unfolding Source_sloc_def using sloc_loop_first_failure[of fs pre c post e r "[]" "[]"] by blast
next
  fix l assume l: "fst (Source_sloc e fs r) = Inr (Some l)"
  then have "\<forall>c \<in> set (chunks 100 fs). \<exists>data. tool_succeeds e r c data"
    unfolding Source_sloc_def by (rule sloc_loop_Some_all_succeed)
  then obtain data where d: "\<forall>c \<in> set (chunks 100 fs). tool_succeeds e r c (data c)"
    by metis
  from Source_sloc_all_succeed[OF d] l
  have "\<forall>key. dict_get l key 0 = (\<Sum>c\<leftarrow>chunks 100 fs. key_count key (data c))"
    by auto
  with d show "\<exists>data. (\<forall>c \<in> set (chunks 100 fs). tool_succeeds e r c (data c))
                   \<and> (\<forall>key. dict_get l key 0
                               = (\<Sum>c\<leftarrow>chunks 100 fs. key_count key (data c)))"
    by blast
qed

theorem sloc_all_or_nothing_witness:
  "chunks 100 (replicate 101 ''a.c'') = [replicate 100 ''a.c''] @ [''a.c''] # []
   \<and> (\<exists>data. tool_succeeds env_second_fails ''/src'' (replicate 100 ''a.c'') data)
   \<and> tool_unavailable env_second_fails ''/src'' [''a.c'']
   \<and> fst (Source_sloc env_second_fails (replicate 101 ''a.c'') ''/src'') = Inr None"
proof -
  have a: "chunks 100 (replicate 101 ''a.c'') = [replicate 100 ''a.c''] @ [''a.c''] # []"
    by (simp add: chunks_101)
  have b: "\<forall>c' \<in> set [replicate 100 ''a.c'']. \<exists>data. tool_succeeds env_second_fails ''/src'' c' data"
    by (simp add: tool_succeeds_def env_second_fails_def env_counting_def sloc_command_def)
  have c: "tool_unavailable env_second_fails ''/src'' [''a.c'']"
    by (simp add: tool_unavailable_def env_second_fails_def env_counting_def sloc_command_def)
  from sloc_all_or_nothing[of "replicate 101 ''a.c''" "[replicate 100 ''a.c'']" "[''a.c'']" "[]"
            env_second_fails "''/src''" "[]" "[]"] a b c
  have "fst (Source_sloc env_second_fails (replicate 101 ''a.c'') ''/src'') = Inr None"
    by blast
  with a b c show ?thesis by simp
qed

text \<open>
  Claim C3.  When the counting tool is unavailable on a chunk (the binary is not found,
  the argument list is too long, or the tool exits with a nonzero status), the chunks
  before it having succeeded, \<^verbatim>\<open>sloc\<close> returns \<^verbatim>\<open>None\<close>; and a construction that asks
  for statistics then succeeds with the very source set that the construction without
  statistics yields, which has no \<open>lines_of_code\<close>.
\<close>

theorem statistics_unavailable:
  assumes "chunks 100 fs = pre @ c # post"
    and "\<forall>c' \<in> set pre. \<exists>data. tool_succeeds e r c' data"
    and "runt_run e (sloc_command c) r [] = Inl FileNotFoundError
         \<or> runt_run e (sloc_command c) r [] = Inl (OSError 7)
         \<or> runt_run e (sloc_command c) r [] = Inl CalledProcessError"
  shows "fst (Source_sloc e fs r) = Inr None
         \<and> (\<forall>root_arg files_arg s.
               Source_init e root_arg files_arg False = Inr s \<and> files s = fs \<and> root s = r
               \<longrightarrow> Source_init e root_arg files_arg True = Inr s \<and> lines_of_code s = None)"
proof -
  from assms(3) have "tool_unavailable e r c" by (auto simp: tool_unavailable_def)
  with assms(1,2) have none: "fst (Source_sloc e fs r) = Inr None"
    unfolding Source_sloc_def by (rule sloc_loop_first_failure)
  have "Source_init e root_arg files_arg True = Inr s \<and> lines_of_code s = None"
    if h: "Source_init e root_arg files_arg False = Inr s \<and> files s = fs \<and> root s = r"
    for root_arg files_arg s
  proof -
    from h have "Source_init e root_arg files_arg True = Inr s"
      using Source_init_with_sloc[of e root_arg files_arg s] none by simp
    moreover from h have "lines_of_code s = None"
      using Source_init_no_sloc[of e root_arg files_arg] by auto
    ultimately show ?thesis ..
  qed
  with none show ?thesis by blast
qed

lemma example_source:
  "Source_init env_no_tool (Some ''/src'') (Some [''/src/a.c'', ''/usr/include/b.h'']) False
     = Inr \<lparr>root = ''/src'', all_files = [''/src/a.c'', ''/usr/include/b.h''],
            files = [''a.c''], lines_of_code = None\<rparr>"
  by code_simp

theorem statistics_unavailable_witness:
  "chunks 100 [''a.c''] = [] @ [''a.c''] # []
   \<and> runt_run env_no_tool (sloc_command [''a.c'']) ''/src'' [] = Inl FileNotFoundError
   \<and> fst (Source_sloc env_no_tool [''a.c''] ''/src'') = Inr None
   \<and> Source_init env_no_tool (Some ''/src'') (Some [''/src/a.c'', ''/usr/include/b.h'']) True
       = Inr \<lparr>root = ''/src'', all_files = [''/src/a.c'', ''/usr/include/b.h''],
              files = [''a.c''], lines_of_code = None\<rparr>"
proof -
  have a: "chunks 100 [''a.c''] = [] @ [''a.c''] # []" by (simp add: chunks_unfold)
  have b: "\<forall>c' \<in> set []. \<exists>data. tool_succeeds env_no_tool ''/src'' c' data" by simp
  have c: "runt_run env_no_tool (sloc_command [''a.c'']) ''/src'' [] = Inl FileNotFoundError"
    by (simp add: env_no_tool_def)
  then have c': "runt_run env_no_tool (sloc_command [''a.c'']) ''/src'' [] = Inl FileNotFoundError
         \<or> runt_run env_no_tool (sloc_command [''a.c'']) ''/src'' [] = Inl (OSError 7)
         \<or> runt_run env_no_tool (sloc_command [''a.c'']) ''/src'' [] = Inl CalledProcessError"
    by simp
  from statistics_unavailable[OF a b c'] example_source a c show ?thesis by simp
qed

section \<open>The files under the root\<close>

text \<open>
  Claim C9.  With no root, or the empty string as root, the root of the source set is
  empty, every member of \<open>all_files\<close> passes the prefix test, and \<open>files\<close> is
  \<open>all_files\<close> with the first character of each path dropped and the rest normalized; a
  non-empty file list gives a non-empty \<open>files\<close>.  The character dropped is the leading
  separator, the current directory being absolute.
\<close>

theorem empty_root_files:
  assumes "root_arg = None \<or> root_arg = Some []"
    and "Source_init e root_arg files_arg sloc = Inr s"
  shows "root s = []
         \<and> (\<forall>p \<in> set (all_files s). startswith p (root s))
         \<and> files s = map (\<lambda>p. srcloct_normpath (drop 1 p)) (all_files s)
         \<and> (\<forall>fs. files_arg = Some fs \<and> fs \<noteq> [] \<longrightarrow> files s \<noteq> [])
         \<and> (os_path_isabs (getcwd e) \<longrightarrow> (\<forall>p \<in> set (all_files s). p = sep # drop 1 p))"
proof -
  note res = Source_init_result[OF assms(2)]
  from assms(1) res(1) have r: "root s = []" by auto
  have pre: "\<forall>p \<in> set (all_files s). startswith p (root s)" by (simp add: r startswith_def)
  have fl: "files s = map (\<lambda>p. srcloct_normpath (drop 1 p)) (all_files s)"
    using res(3) by (simp add: r startswith_def relative_to_def)
  have ne: "\<forall>fs. files_arg = Some fs \<and> fs \<noteq> [] \<longrightarrow> files s \<noteq> []"
  proof (intro allI impI)
    fix fs assume "files_arg = Some fs \<and> fs \<noteq> []"
    with res(2) have "set (all_files s) = srcloct_abspath (getcwd e) ` set fs" "fs \<noteq> []" by simp_all
    then have "all_files s \<noteq> []" by auto
    with fl show "files s \<noteq> []" by simp
  qed
  have ab: "os_path_isabs (getcwd e) \<longrightarrow> (\<forall>p \<in> set (all_files s). p = sep # drop 1 p)"
  proof (intro impI ballI)
    fix p assume cwd: "os_path_isabs (getcwd e)" and "p \<in> set (all_files s)"
    with res(2) obtain q where "p = srcloct_abspath (getcwd e) q"
      by (cases files_arg) auto
    with cwd have "os_path_isabs p" by (simp add: srcloct_abspath_def abspath_isabs)
    then show "p = sep # drop 1 p"
      by (cases p) (auto simp: os_path_isabs_def startswith_def)
  qed
  from r pre fl ne ab show ?thesis by (intro conjI)
qed

lemma example_source_no_root:
  "Source_init env_no_tool None (Some [''/src/a.c'', ''lib//b.h'']) False
     = Inr \<lparr>root = [], all_files = [''/home/user/lib/b.h'', ''/src/a.c''],
            files = [''home/user/lib/b.h'', ''src/a.c''], lines_of_code = None\<rparr>"
  by code_simp

theorem empty_root_files_witness:
  "Source_init env_no_tool None (Some [''/src/a.c'', ''lib//b.h'']) False
     = Inr \<lparr>root = [], all_files = [''/home/user/lib/b.h'', ''/src/a.c''],
            files = [''home/user/lib/b.h'', ''src/a.c''], lines_of_code = None\<rparr>
   \<and> os_path_isabs (getcwd env_no_tool)
   \<and> [''home/user/lib/b.h'', ''src/a.c'']
       = map (\<lambda>p. srcloct_normpath (drop 1 p)) [''/home/user/lib/b.h'', ''/src/a.c'']
   \<and> map (\<lambda>p. sep # drop 1 p) [''/home/user/lib/b.h'', ''/src/a.c'']
       = [''/home/user/lib/b.h'', ''/src/a.c'']"
proof -
  have cwd: "os_path_isabs (getcwd env_no_tool)"
    by (simp add: env_no_tool_def env_counting_def os_path_isabs_def startswith_def sep_def)
  have none: "(None :: string option) = None \<or> (None :: string option) = Some []" by simp
  from empty_root_files[OF none example_source_no_root] cwd example_source_no_root
  show ?thesis by (simp add: sep_def)
qed

section \<open>Merging serialized source sets\<close>

text \<open>
  Claim C4.  When the loaded documents have more than one distinct root, \<^verbatim>\<open>merge\<close> fails
  with the \<^verbatim>\<open>UserWarning\<close> whose message is formatted with the list of the distinct
  roots; when they have exactly one root \<open>r\<close>, it returns \<open>r\<close> and a duplicate-free list
  of the members of every document's \<open>all_files\<close>.  \<^verbatim>\<open>SourceFromJson\<close>, the documents
  loaded, fails with the error of \<^verbatim>\<open>merge\<close> or constructs the source set from what
  \<^verbatim>\<open>merge\<close> returns.
\<close>

theorem merge_roots:
  "(1 < card (root ` set sources)
      \<longrightarrow> (\<exists>roots. merge sources
                       = Inl (UserWarning ''Source lists have different roots: {}'' roots)
                   \<and> distinct roots \<and> set roots = root ` set sources))
   \<and> (\<forall>r. root ` set sources = {r}
        \<longrightarrow> (\<exists>fs. merge sources = Inr (r, fs) \<and> distinct fs
                  \<and> set fs = (\<Union>s \<in> set sources. set (all_files s))))
   \<and> (\<forall>e names sloc. names \<noteq> [] \<and> load_all e names = Inr sources
        \<longrightarrow> SourceFromJson_init e (Some names) sloc
              = (case merge sources of
                   Inl err \<Rightarrow> Inl err
                 | Inr (r, fs) \<Rightarrow> Source_init e (Some r) (Some fs) sloc))"
proof (intro conjI impI allI)
  assume "1 < card (root ` set sources)"
  then have "merge sources
      = Inl (UserWarning ''Source lists have different roots: {}'' (remdups (map root sources)))"
    by (simp add: merge_unfold)
  then show "\<exists>roots. merge sources
                       = Inl (UserWarning ''Source lists have different roots: {}'' roots)
                   \<and> distinct roots \<and> set roots = root ` set sources"
    by simp
next
  fix r assume r: "root ` set sources = {r}"
  then have "hd (remdups (map root sources)) = r" by (intro hd_remdups_singleton) simp
  with r have "merge sources = Inr (r, remdups (concat (map all_files sources)))"
    by (simp add: merge_unfold)
  then show "\<exists>fs. merge sources = Inr (r, fs) \<and> distinct fs
                  \<and> set fs = (\<Union>s \<in> set sources. set (all_files s))"
    by simp
next
  fix e names sloc assume "names \<noteq> [] \<and> load_all e names = Inr sources"
  then show "SourceFromJson_init e (Some names) sloc
              = (case merge sources of
                   Inl err \<Rightarrow> Inl err
                 | Inr (r, fs) \<Rightarrow> Source_init e (Some r) (Some fs) sloc)"
    by (simp add: SourceFromJson_init_def split: sum.splits prod.splits)
qed

theorem merge_roots_witness:
  "1 < card (root ` set [\<lparr>root = ''/a'', all_files = [''/a/x.c''], files = [''x.c''], lines_of_code = None\<rparr>,
                         \<lparr>root = ''/b'', all_files = [''/b/y.c''], files = [''y.c''], lines_of_code = None\<rparr>])
   \<and> (\<exists>roots. merge [\<lparr>root = ''/a'', all_files = [''/a/x.c''], files = [''x.c''], lines_of_code = None\<rparr>,
                      \<lparr>root = ''/b'', all_files = [''/b/y.c''], files = [''y.c''], lines_of_code = None\<rparr>]
                = Inl (UserWarning ''Source lists have different roots: {}'' roots)
              \<and> set roots = {''/a'', ''/b''})
   \<and> root ` set [\<lparr>root = ''/a'', all_files = [''/a/x.c'', ''/a/z.c''], files = [''x.c'', ''z.c''], lines_of_code = None\<rparr>,
                 \<lparr>root = ''/a'', all_files = [''/a/x.c'', ''/lib/y.h''], files = [''x.c''], lines_of_code = None\<rparr>]
       = {''/a''}
   \<and> (\<exists>fs. merge [\<lparr>root = ''/a'', all_files = [''/a/x.c'', ''/a/z.c''], files = [''x.c'', ''z.c''], lines_of_code = None\<rparr>,
                   \<lparr>root = ''/a'', all_files = [''/a/x.c'', ''/lib/y.h''], files = [''x.c''], lines_of_code = None\<rparr>]
             = Inr (''/a'', fs)
           \<and> distinct fs \<and> set fs = {''/a/x.c'', ''/a/z.c'', ''/lib/y.h''})"
proof -
  let ?two = "[\<lparr>root = ''/a'', all_files = [''/a/x.c''], files = [''x.c''], lines_of_code = None\<rparr>,
               \<lparr>root = ''/b'', all_files = [''/b/y.c''], files = [''y.c''], lines_of_code = None\<rparr>]"
  let ?one = "[\<lparr>root = ''/a'', all_files = [''/a/x.c'', ''/a/z.c''], files = [''x.c'', ''z.c''], lines_of_code = None\<rparr>,
               \<lparr>root = ''/a'', all_files = [''/a/x.c'', ''/lib/y.h''], files = [''x.c''], lines_of_code = None\<rparr>]"
  have c: "1 < card (root ` set ?two)" by simp
  have o: "root ` set ?one = {''/a''}" by simp
  from merge_roots[of ?two] c have
    "\<exists>roots. merge ?two = Inl (UserWarning ''Source lists have different roots: {}'' roots)
              \<and> set roots = {''/a'', ''/b''}"
    by auto
  moreover from merge_roots[of ?one] o have
    "\<exists>fs. merge ?one = Inr (''/a'', fs) \<and> distinct fs \<and> set fs = {''/a/x.c'', ''/a/z.c'', ''/lib/y.h''}"
    by auto
  ultimately show ?thesis using c o by blast
qed

section \<open>The order of the lists\<close>

text \<open>
  Claim C10.  Whatever constructs a source set (the base constructor, one of the five
  strategies, or \<^verbatim>\<open>make_source\<close>), its \<open>all_files\<close> is sorted in ascending order and
  has no duplicates, and its \<open>files\<close> is obtained from the sublist of the members of
  \<open>all_files\<close> that start with the root, entry by entry in the same order.
\<close>

theorem ordering_after_construction:
  assumes "Source_init e root_arg files_arg sloc = Inr s
           \<or> SourceFromJson_init e source_jsons sloc = Inr s
           \<or> SourceFromGoto_init e goto wkdir srcdir sloc = Inr s
           \<or> SourceFromFind_init e root_dir exclude extensions sloc = Inr s
           \<or> SourceFromWalk_init e root_dir exclude extensions sloc = Inr s
           \<or> SourceFromMake_init e root_dir build sloc = Inr s
           \<or> make_source e viewer_source goto_arg source_method srcdir_arg wkdir_arg
                exclude extensions = Inr s"
  shows "sorted (all_files s) \<and> distinct (all_files s)
         \<and> files s = map (relative_to (root s))
                        (filter (\<lambda>path. startswith path (root s)) (all_files s))"
proof -
  from assms obtain ra fa sl where c: "Source_init e ra fa sl = Inr s"
    using SourceFromJson_init_Source SourceFromGoto_init_Source SourceFromFind_init_Source
      SourceFromWalk_init_Source SourceFromMake_init_Source make_source_Source
    by metis
  from Source_init_sorted[OF c] Source_init_result(3)[OF c] show ?thesis by simp
qed

lemma example_walk:
  "make_source env_walk None None (Some WALK) (Some ''/src/'') None None None
     = Inr \<lparr>root = ''/src'', all_files = [''/src/a.H'', ''/src/b.c'', ''/src/doc/a.H''],
            files = [''a.H'', ''b.c'', ''doc/a.H''], lines_of_code = None\<rparr>"
  by code_simp

theorem ordering_after_construction_witness:
  "make_source env_walk None None (Some WALK) (Some ''/src/'') None None None
     = Inr \<lparr>root = ''/src'', all_files = [''/src/a.H'', ''/src/b.c'', ''/src/doc/a.H''],
            files = [''a.H'', ''b.c'', ''doc/a.H''], lines_of_code = None\<rparr>
   \<and> sorted [''/src/a.H'', ''/src/b.c'', ''/src/doc/a.H'']
   \<and> distinct [''/src/a.H'', ''/src/b.c'', ''/src/doc/a.H'']
   \<and> [''a.H'', ''b.c'', ''doc/a.H'']
       = map (relative_to ''/src'')
           (filter (\<lambda>path. startswith path ''/src'') [''/src/a.H'', ''/src/b.c'', ''/src/doc/a.H''])"
proof -
  from example_walk have
    "Source_init env_walk None None False
       = Inr \<lparr>root = ''/src'', all_files = [''/src/a.H'', ''/src/b.c'', ''/src/doc/a.H''],
              files = [''a.H'', ''b.c'', ''doc/a.H''], lines_of_code = None\<rparr>
     \<or> SourceFromJson_init env_walk None False
       = Inr \<lparr>root = ''/src'', all_files = [''/src/a.H'', ''/src/b.c'', ''/src/doc/a.H''],
              files = [''a.H'', ''b.c'', ''doc/a.H''], lines_of_code = None\<rparr>
     \<or> SourceFromGoto_init env_walk None [] [] False
       = Inr \<lparr>root = ''/src'', all_files = [''/src/a.H'', ''/src/b.c'', ''/src/doc/a.H''],
              files = [''a.H'', ''b.c'', ''doc/a.H''], lines_of_code = None\<rparr>
     \<or> SourceFromFind_init env_walk [] None None False
       = Inr \<lparr>root = ''/src'', all_files = [''/src/a.H'', ''/src/b.c'', ''/src/doc/a.H''],
              files = [''a.H'', ''b.c'', ''doc/a.H''], lines_of_code = None\<rparr>
     \<or> SourceFromWalk_init env_walk [] None None False
       = Inr \<lparr>root = ''/src'', all_files = [''/src/a.H'', ''/src/b.c'', ''/src/doc/a.H''],
              files = [''a.H'', ''b.c'', ''doc/a.H''], lines_of_code = None\<rparr>
     \<or> SourceFromMake_init env_walk [] [] False
       = Inr \<lparr>root = ''/src'', all_files = [''/src/a.H'', ''/src/b.c'', ''/src/doc/a.H''],
              files = [''a.H'', ''b.c'', ''doc/a.H''], lines_of_code = None\<rparr>
     \<or> make_source env_walk None None (Some WALK) (Some ''/src/'') None None None
       = Inr \<lparr>root = ''/src'', all_files = [''/src/a.H'', ''/src/b.c'', ''/src/doc/a.H''],
              files = [''a.H'', ''b.c'', ''doc/a.H''], lines_of_code = None\<rparr>"
    by (intro disjI2)
  from ordering_after_construction[OF this] example_walk show ?thesis by simp
qed

section \<open>Serializing and merging back\<close>

text \<open>
  Claim C6.  Let a source set be constructed (by the base constructor or by
  \<^verbatim>\<open>make_source\<close>, the current directory being absolute, as \<^verbatim>\<open>os.getcwd()\<close> is), and let
  a file hold its serialization.  The JSON-merge strategy applied to that one file, in
  any environment, succeeds with a source set that has the same \<open>root\<close>, the same
  \<open>all_files\<close> and the same \<open>files\<close>, and no statistics.
\<close>

theorem json_round_trip:
  assumes "os_path_isabs (getcwd e0)"
    and "Source_init e0 root_arg files_arg sloc = Inr s
         \<or> make_source e0 viewer_source0 goto0 source_method0 srcdir0 wkdir0 exclude0 extensions0
              = Inr s"
    and "parse_json_file e name = Source_str s"
  shows "\<exists>s'. SourceFromJson_init e (Some [name]) False = Inr s'
              \<and> make_source e (Some [name]) goto source_method srcdir wkdir exclude extensions
                  = Inr s'
              \<and> root s' = root s \<and> all_files s' = all_files s \<and> files s' = files s
              \<and> lines_of_code s' = None"
proof -
  from assms(2) obtain ra fa sl where c: "Source_init e0 ra fa sl = Inr s"
    using make_source_Source by blast
  note sd = Source_init_sorted[OF c]
  from assms(3) have "load_all e [name] = Inr [s]" by (simp add: load_def Source_str_def)
  moreover have "merge [s] = Inr (root s, all_files s)"
    using sd by (simp add: merge_def Let_def distinct_remdups_id)
  ultimately have j: "SourceFromJson_init e (Some [name]) False = Inr (s\<lparr>lines_of_code := None\<rparr>)"
    using Source_init_reconstruct[OF assms(1) c, of e] by (simp add: SourceFromJson_init_def)
  have "make_source e (Some [name]) goto source_method srcdir wkdir exclude extensions
          = SourceFromJson_init e (Some [name]) False"
    by (simp add: make_source_def Let_def)
  with j show ?thesis by simp
qed

theorem json_round_trip_witness:
  "os_path_isabs (getcwd env_no_tool)
   \<and> Source_init env_no_tool (Some ''/src'') (Some [''/src/a.c'', ''/usr/include/b.h'']) False
       = Inr \<lparr>root = ''/src'', all_files = [''/src/a.c'', ''/usr/include/b.h''],
              files = [''a.c''], lines_of_code = None\<rparr>
   \<and> parse_json_file env_reader ''viewer-source.json''
       = Source_str \<lparr>root = ''/src'', all_files = [''/src/a.c'', ''/usr/include/b.h''],
                     files = [''a.c''], lines_of_code = None\<rparr>
   \<and> SourceFromJson_init env_reader (Some [''viewer-source.json'']) False
       = Inr \<lparr>root = ''/src'', all_files = [''/src/a.c'', ''/usr/include/b.h''],
              files = [''a.c''], lines_of_code = None\<rparr>"
proof -
  let ?s = "\<lparr>root = ''/src'', all_files = [''/src/a.c'', ''/usr/include/b.h''],
              files = [''a.c''], lines_of_code = None\<rparr>"
  have cwd: "os_path_isabs (getcwd env_no_tool)"
    by (simp add: env_no_tool_def env_counting_def os_path_isabs_def startswith_def sep_def)
  have built: "Source_init env_no_tool (Some ''/src'') (Some [''/src/a.c'', ''/usr/include/b.h'']) False
                 = Inr ?s \<or> make_source env_no_tool None None None None None None None = Inr ?s"
    using example_source by simp
  have doc: "parse_json_file env_reader ''viewer-source.json'' = Source_str ?s"
    by (simp add: env_reader_def Source_str_def)
  from json_round_trip[OF cwd built doc] obtain s' where
    "SourceFromJson_init env_reader (Some [''viewer-source.json'']) False = Inr s'"
    "root s' = root ?s" "all_files s' = all_files ?s" "files s' = files ?s" "lines_of_code s' = None"
    by blast
  then have "SourceFromJson_init env_reader (Some [''viewer-source.json'']) False = Inr ?s"
    by (cases s') simp
  with cwd example_source doc show ?thesis by simp
qed

section \<open>Line markers in the preprocessor output\<close>

text \<open>
  Claim C2, as amended.  \<^verbatim>\<open>extract_source_filenames\<close> keeps exactly the lines that begin
  with a hash and a space once leading and trailing whitespace is stripped: the list it
  returns is sorted, has no duplicates, and holds exactly the names quoted on the kept
  lines, those whose base name is \<^verbatim>\<open><built-in>\<close>, \<^verbatim>\<open><command-line>\<close> or
  \<^verbatim>\<open><command line>\<close> left out, each joined to the build directory and normalized; and it
  returns a list when each kept line has a quoted name.  The name quoted on a line with
  two double quotes is the text between them, and joining leaves an absolute name as it
  is and puts the build directory before any other.
\<close>

theorem extract_source_filenames_stripped:
  "(\<forall>fs. extract_source_filenames output build = Inr fs
      \<longrightarrow> sorted fs \<and> distinct fs
          \<and> set fs = {os_path_normpath (os_path_join build name) | line name.
                        line \<in> set output \<and> startswith (py_strip line) ''# ''
                        \<and> search_quoted line = Some name
                        \<and> os_path_basename name
                            \<notin> {''<built-in>'', ''<command-line>'', ''<command line>''}})
   \<and> ((\<forall>line \<in> set output. startswith (py_strip line) ''# '' \<longrightarrow> search_quoted line \<noteq> None)
        \<longrightarrow> (\<exists>fs. extract_source_filenames output build = Inr fs))
   \<and> (\<forall>pre name post.
         dquote \<notin> set pre \<and> dquote \<notin> set name \<and> CHR 0x0A \<notin> set name \<and> dquote \<notin> set post
         \<longrightarrow> search_quoted (pre @ dquote # name @ dquote # post) = Some name)
   \<and> (\<forall>name. os_path_join build name
                = (if os_path_isabs name then name
                   else if build = [] \<or> endswith build [sep] then build @ name
                   else build @ sep # name))"
proof -
  have first: "\<forall>fs. extract_source_filenames output build = Inr fs
      \<longrightarrow> sorted fs \<and> distinct fs
          \<and> set fs = {os_path_normpath (os_path_join build name) | line name.
                        line \<in> set output \<and> startswith (py_strip line) ''# ''
                        \<and> search_quoted line = Some name
                        \<and> os_path_basename name
                            \<notin> {''<built-in>'', ''<command-line>'', ''<command line>''}}"
  proof (intro allI impI)
    fix fs assume r: "extract_source_filenames output build = Inr fs"
    from extract_source_filenames_quoted[OF extract_source_filenames_returns[OF r], of build] r
    show "sorted fs \<and> distinct fs
          \<and> set fs = {os_path_normpath (os_path_join build name) | line name.
                        line \<in> set output \<and> startswith (py_strip line) ''# ''
                        \<and> search_quoted line = Some name
                        \<and> os_path_basename name
                            \<notin> {''<built-in>'', ''<command-line>'', ''<command line>''}}"
      by (elim exE conjE) simp
  qed
  have total: "(\<forall>line \<in> set output. startswith (py_strip line) ''# '' \<longrightarrow> search_quoted line \<noteq> None)
        \<longrightarrow> (\<exists>fs. extract_source_filenames output build = Inr fs)"
    using extract_source_filenames_quoted[of "output" "build"] by blast
  have second: "\<forall>pre name post.
               dquote \<notin> set pre \<and> dquote \<notin> set name \<and> CHR 0x0A \<notin> set name \<and> dquote \<notin> set post
               \<longrightarrow> search_quoted (pre @ dquote # name @ dquote # post) = Some name"
    unfolding dquote_def using search_quoted_between by blast
  have third: "\<forall>name. os_path_join build name
                      = (if os_path_isabs name then name
                         else if build = [] \<or> endswith build [sep] then build @ name
                         else build @ sep # name)"
    by (simp add: os_path_join_def os_path_isabs_def)
  from first total second third show ?thesis by (intro conjI)
qed

theorem extract_source_filenames_stripped_witness:
  "map search_quoted
     (filter (\<lambda>line. startswith (py_strip line) ''# '')
        [linemarker ''1'' ''/src/foo.c'' '' 1'', linemarker ''1'' ''<built-in>'' '' 3'',
         ''#define X 1'', linemarker ''7'' ''../inc//bar.h'' '' 2'', ''int x;''])
     = [Some ''/src/foo.c'', Some ''<built-in>'', Some ''../inc//bar.h'']
   \<and> extract_source_filenames
        [linemarker ''1'' ''/src/foo.c'' '' 1'', linemarker ''1'' ''<built-in>'' '' 3'',
         ''#define X 1'', linemarker ''7'' ''../inc//bar.h'' '' 2'', ''int x;''] ''/proj/build''
       = Inr [''/proj/inc/bar.h'', ''/src/foo.c'']
   \<and> search_quoted (linemarker ''1'' ''/src/foo.c'' '' 1'') = Some ''/src/foo.c''
   \<and> os_path_join ''/proj/build'' ''/src/foo.c'' = ''/src/foo.c''"
proof -
  note t = extract_source_filenames_stripped[of "[linemarker ''1'' ''/src/foo.c'' '' 1'', linemarker ''1'' ''<built-in>'' '' 3'',
         ''#define X 1'', linemarker ''7'' ''../inc//bar.h'' '' 2'', ''int x;'']" "''/proj/build''"]
  from t have "search_quoted (''# 1 '' @ dquote # ''/src/foo.c'' @ dquote # '' 1'') = Some ''/src/foo.c''"
    by (simp add: dquote_def)
  then have q: "search_quoted (linemarker ''1'' ''/src/foo.c'' '' 1'') = Some ''/src/foo.c''"
    by (simp add: linemarker_def)
  from t have j: "os_path_join ''/proj/build'' ''/src/foo.c'' = ''/src/foo.c''"
    by (simp add: os_path_isabs_def startswith_def sep_def)
  have m: "map search_quoted
     (filter (\<lambda>line. startswith (py_strip line) ''# '')
        [linemarker ''1'' ''/src/foo.c'' '' 1'', linemarker ''1'' ''<built-in>'' '' 3'',
         ''#define X 1'', linemarker ''7'' ''../inc//bar.h'' '' 2'', ''int x;''])
     = [Some ''/src/foo.c'', Some ''<built-in>'', Some ''../inc//bar.h'']"
    by code_simp
  from m example_extract q j show ?thesis by (intro conjI)
qed

text \<open>
  The claim as stated, that exactly the lines beginning with a hash and a space are
  kept, fails on an indented line marker: the line does not begin with a hash, and its
  file name is returned.
\<close>

theorem linemarker_indented_counterexample:
  "\<not> startswith (''  '' @ linemarker ''1'' ''/src/foo.c'' '' 1'') ''# ''
   \<and> extract_source_filenames [''  '' @ linemarker ''1'' ''/src/foo.c'' '' 1''] ''/proj/build''
       = Inr [''/src/foo.c'']"
  by code_simp

section \<open>A sibling of the root\<close>

text \<open>
  Claim C1 at the root \<^verbatim>\<open>/a/b\<close> and the files \<^verbatim>\<open>/a/bc/d.c\<close> and \<^verbatim>\<open>/a/b/x.c\<close>, in any
  environment: the first file is not under the root, yet it passes the prefix test of
  \<^verbatim>\<open>Source.__init__\<close> and \<open>files\<close> gets the entry \<^verbatim>\<open>/d.c\<close> for it.
\<close>

theorem prefix_sibling_in_files:
  "Source_init e (Some ''/a/b'') (Some [''/a/bc/d.c'', ''/a/b/x.c'']) False
     = Inr \<lparr>root = ''/a/b'', all_files = [''/a/b/x.c'', ''/a/bc/d.c''],
            files = [''x.c'', ''/d.c''], lines_of_code = None\<rparr>"
proof -
  have r: "srcloct_abspath (getcwd e) ''/a/b'' = ''/a/b''"
    unfolding srcloct_abspath_def os_path_abspath_def
    by (simp add: os_path_isabs_def startswith_def sep_def) code_simp
  have x: "srcloct_abspath (getcwd e) ''/a/b/x.c'' = ''/a/b/x.c''"
    unfolding srcloct_abspath_def os_path_abspath_def
    by (simp add: os_path_isabs_def startswith_def sep_def) code_simp
  have d: "srcloct_abspath (getcwd e) ''/a/bc/d.c'' = ''/a/bc/d.c''"
    unfolding srcloct_abspath_def os_path_abspath_def
    by (simp add: os_path_isabs_def startswith_def sep_def) code_simp
  have r': "(if ''/a/b'' \<noteq> [] then srcloct_abspath (getcwd e) ''/a/b'' else []) = ''/a/b''"
    by (simp add: r)
  have a: "sorted_list_of_set
             (set (map (srcloct_abspath (getcwd e)) [''/a/bc/d.c'', ''/a/b/x.c'']))
           = [''/a/b/x.c'', ''/a/bc/d.c'']"
    by (simp only: list.map x d) code_simp
  have f: "map (relative_to ''/a/b'')
             (filter (\<lambda>path. startswith path ''/a/b'') [''/a/b/x.c'', ''/a/bc/d.c''])
           = [''x.c'', ''/d.c'']"
    by code_simp
  show ?thesis
    unfolding Source_init_no_sloc option.case r' a f by (rule refl)
qed

end
